theory Spec2Isabelle
  imports Complex_Main "HOL-Library.AList" "HOL-Library.Char_ord" "HOL-Library.List_Lexorder"
begin

section \<open>Python values used by the extractor\<close>

text \<open>
  The development embeds \<^verbatim>\<open>src/loc_dashboard/extractor.py\<close>. A Python \<^verbatim>\<open>str\<close> is a
  \<^typ>\<open>string\<close> whose characters are the code points below 256; the order on strings is
  the lexicographic order on code points, as Python compares \<^verbatim>\<open>str\<close> values. A
  \<^verbatim>\<open>dict\<close> is an association list with distinct keys in insertion order: assignment
  \<^verbatim>\<open>d[k] = v\<close> is \<^const>\<open>AList.update\<close>, which overwrites the value of a key that is
  present and appends a new key at the end. Every exception the code can raise is
  a value of \<open>error\<close>, and a computation that may raise returns \<open>error + 'a\<close>.
  The functions keep their names, without the leading underscore of \<^verbatim>\<open>_run\<close>,
  \<^verbatim>\<open>_cloc_from_archive\<close> and \<^verbatim>\<open>_has_subpath\<close>.
\<close>

datatype error =
    RuntimeError string
  | TimeoutExpired
  | OSError
  | IndexError
  | ValueError
  | KeyError
  | ZeroDivisionError
  | OverflowError

subsection \<open>String methods\<close>

text \<open>\<^verbatim>\<open>str.isspace\<close> on one character: code points 9-13, 28-32, 133 and 160.\<close>

definition isspace :: "char \<Rightarrow> bool" where
  "isspace c =
     (let n = (of_char c :: nat)
      in (9 \<le> n \<and> n \<le> 13) \<or> (28 \<le> n \<and> n \<le> 32) \<or> n = 133 \<or> n = 160)"

text \<open>
  \<^verbatim>\<open>str.isdigit\<close> on one character: the ASCII digits and the superscript digits
  (code points 178, 179 and 185).
\<close>

definition isdigit :: "char \<Rightarrow> bool" where
  "isdigit c =
     (let n = (of_char c :: nat)
      in (48 \<le> n \<and> n \<le> 57) \<or> n = 178 \<or> n = 179 \<or> n = 185)"

text \<open>The line boundaries of \<^verbatim>\<open>str.splitlines\<close> below 256.\<close>

definition islinebreak :: "char \<Rightarrow> bool" where
  "islinebreak c =
     (let n = (of_char c :: nat)
      in (10 \<le> n \<and> n \<le> 13) \<or> (28 \<le> n \<and> n \<le> 30) \<or> n = 133)"

text \<open>\<^verbatim>\<open>s.strip()\<close> and \<^verbatim>\<open>s.strip("/")\<close>: drop the characters at both ends.\<close>

definition strip_chars :: "(char \<Rightarrow> bool) \<Rightarrow> string \<Rightarrow> string" where
  "strip_chars p s = rev (dropWhile p (rev (dropWhile p s)))"

definition strip :: "string \<Rightarrow> string" where
  "strip s = strip_chars isspace s"

text \<open>
  \<^verbatim>\<open>s.splitlines()\<close>: the pieces between line boundaries, \<^verbatim>\<open>\r\n\<close> counting as one
  boundary, with no empty piece after a final boundary. The first argument is the
  current piece, reversed.
\<close>

fun splitlines_from :: "string \<Rightarrow> string \<Rightarrow> string list" where
  "splitlines_from cur [] = (if cur = [] then [] else [rev cur])"
| "splitlines_from cur (c # cs) =
     (if islinebreak c then
        (case cs of
           d # ds \<Rightarrow>
             if c = CHR 0x0D \<and> d = CHR 0x0A then rev cur # splitlines_from [] ds
             else rev cur # splitlines_from [] cs
         | [] \<Rightarrow> rev cur # splitlines_from [] cs)
      else splitlines_from (c # cur) cs)"

definition splitlines :: "string \<Rightarrow> string list" where
  "splitlines s = splitlines_from [] s"

text \<open>\<^verbatim>\<open>s.split()\<close>: the maximal runs of characters that are not white space.\<close>

fun split_from :: "string \<Rightarrow> string \<Rightarrow> string list" where
  "split_from cur [] = (if cur = [] then [] else [rev cur])"
| "split_from cur (c # cs) =
     (if isspace c then (if cur = [] then split_from [] cs else rev cur # split_from [] cs)
      else split_from (c # cur) cs)"

definition split :: "string \<Rightarrow> string list" where
  "split s = split_from [] s"

text \<open>\<^verbatim>\<open>s.split(",")\<close>: the pieces between separators, empty pieces kept.\<close>

fun split_on_from :: "char \<Rightarrow> string \<Rightarrow> string \<Rightarrow> string list" where
  "split_on_from sep cur [] = [rev cur]"
| "split_on_from sep cur (c # cs) =
     (if c = sep then rev cur # split_on_from sep [] cs else split_on_from sep (c # cur) cs)"

definition split_on :: "char \<Rightarrow> string \<Rightarrow> string list" where
  "split_on sep s = split_on_from sep [] s"

definition startswith :: "string \<Rightarrow> string \<Rightarrow> bool" where
  "startswith s p = (take (length p) s = p)"

section \<open>External processes and the file system\<close>

text \<open>
  The extractor talks to \<^verbatim>\<open>git\<close> and \<^verbatim>\<open>cloc\<close> through \<^verbatim>\<open>subprocess.run\<close> and keeps one
  temporary file per count. What those programs answer is not decided by the code, so it
  is a parameter: an environment gives, for the state of the world and a call (command
  line, working directory, timeout in seconds), the outcome of the call and the files that
  exist after it. An outcome is a completed process (return code, standard output, standard
  error) or an exception raised by \<^verbatim>\<open>subprocess.run\<close> itself (\<open>TimeoutExpired\<close>, \<open>OSError\<close>).
  The world records the existing files, every call made so far, and every progress
  notification delivered to the caller's callback.
\<close>

type_synonym call = "string list \<times> string option \<times> nat"

datatype proc_outcome = Completed int string string | Raised error

record world =
  files :: "string set"
  calls :: "call list"
  notified :: "(nat \<times> nat \<times> string) list"

record env =
  exec :: "world \<Rightarrow> call \<Rightarrow> proc_outcome \<times> string set"
  mktemp :: "world \<Rightarrow> string"

definition subprocess_run :: "env \<Rightarrow> world \<Rightarrow> call \<Rightarrow> proc_outcome \<times> world" where
  "subprocess_run E w c =
     (case exec E w c of (r, fs) \<Rightarrow> (r, w\<lparr>files := fs, calls := calls w @ [c]\<rparr>))"

text \<open>\<^verbatim>\<open>_run(cmd, cwd, timeout=300)\<close>.\<close>

definition run :: "env \<Rightarrow> world \<Rightarrow> string list \<Rightarrow> string \<Rightarrow> proc_outcome \<times> world" where
  "run E w cmd cwd = subprocess_run E w (cmd, Some cwd, 300)"

section \<open>The commit selector: \<^verbatim>\<open>get_monthly_commits\<close>\<close>

text \<open>
  An entry is the dictionary \<^verbatim>\<open>{"hash": ..., "date": ..., "month": ...}\<close>. The library
  function \<^verbatim>\<open>datetime.fromisoformat\<close> is a parameter \<open>fromiso\<close> of the model, so the type of
  dates is a parameter too.
\<close>

record 'd entry =
  ehash :: string
  edate :: 'd
  emonth :: string

text \<open>
  The body of the loop over the lines of \<^verbatim>\<open>git log --format="%H %ai" --reverse\<close>:
  \<^verbatim>\<open>parts[0]\<close>, \<^verbatim>\<open>parts[1]\<close> and \<^verbatim>\<open>parts[2]\<close> raise \<open>IndexError\<close> on a line with fewer
  than three fields, and \<open>fromiso\<close> may raise on the text \<^verbatim>\<open>f"{parts[1]}T{parts[2]}"\<close>.
\<close>

definition commit_line :: "(string \<Rightarrow> error + 'd) \<Rightarrow> string \<Rightarrow> error + 'd entry" where
  "commit_line fromiso line =
     (case split line of
        h # d # t # rest \<Rightarrow>
          (case fromiso (d @ ''T'' @ t) of
             Inl e \<Rightarrow> Inl e
           | Inr cd \<Rightarrow> Inr \<lparr>ehash = h, edate = cd, emonth = take 7 d\<rparr>)
      | _ \<Rightarrow> Inl IndexError)"

fun monthly_loop ::
  "(string \<Rightarrow> error + 'd) \<Rightarrow> string list \<Rightarrow> (string \<times> 'd entry) list \<Rightarrow>
   error + (string \<times> 'd entry) list" where
  "monthly_loop fromiso [] monthly = Inr monthly"
| "monthly_loop fromiso (line # rest) monthly =
     (case commit_line fromiso line of
        Inl e \<Rightarrow> Inl e
      | Inr ent \<Rightarrow> monthly_loop fromiso rest (AList.update (emonth ent) ent monthly))"

text \<open>\<^verbatim>\<open>[d[k] for k in ks]\<close>, where \<^verbatim>\<open>d[k]\<close> raises \<open>KeyError\<close> on a missing key.\<close>

fun lookup_all :: "('k \<times> 'v) list \<Rightarrow> 'k list \<Rightarrow> error + 'v list" where
  "lookup_all d [] = Inr []"
| "lookup_all d (k # ks) =
     (case map_of d k of
        None \<Rightarrow> Inl KeyError
      | Some v \<Rightarrow> (case lookup_all d ks of Inl e \<Rightarrow> Inl e | Inr vs \<Rightarrow> Inr (v # vs)))"

definition git_log_cmd :: "string \<Rightarrow> string list" where
  "git_log_cmd branch = [''git'', ''log'', branch, ''--format=%H %ai'', ''--reverse'']"

definition get_monthly_commits ::
  "(string \<Rightarrow> error + 'd) \<Rightarrow> env \<Rightarrow> world \<Rightarrow> string \<Rightarrow> string \<Rightarrow>
   (error + 'd entry list) \<times> world" where
  "get_monthly_commits fromiso E w repo_path branch =
     (case run E w (git_log_cmd branch) repo_path of
        (Raised e, w') \<Rightarrow> (Inl e, w')
      | (Completed returncode out err, w') \<Rightarrow>
          if returncode \<noteq> 0 then (Inl (RuntimeError (''git log failed: '' @ err)), w')
          else
            (case monthly_loop fromiso (splitlines (strip out)) [] of
               Inl e \<Rightarrow> (Inl e, w')
             | Inr monthly \<Rightarrow> (lookup_all monthly (sort (map fst monthly)), w')))"

section \<open>The counting adapter: \<^verbatim>\<open>_cloc_from_archive\<close>\<close>

text \<open>
  One line of the CSV report of \<^verbatim>\<open>cloc\<close>, as the loop body reads it: \<open>Inr None\<close> is
  \<^verbatim>\<open>continue\<close>, \<open>Inr (Some (lang, code))\<close> a data row. \<^verbatim>\<open>line[0]\<close> raises \<open>IndexError\<close> on
  an empty line, and the library function \<^verbatim>\<open>int\<close>, the parameter \<open>toint\<close>, may raise on
  the fifth field. With at least five fields, \<^verbatim>\<open>parts[1]\<close> and \<^verbatim>\<open>parts[4]\<close> exist.
\<close>

definition cloc_row ::
  "(string \<Rightarrow> error + int) \<Rightarrow> string \<Rightarrow> error + (string \<times> int) option" where
  "cloc_row toint line =
     (if startswith line ''files'' then Inr None
      else
        (case line of
           [] \<Rightarrow> Inl IndexError
         | c # cs \<Rightarrow>
             if \<not> isdigit c then Inr None
             else
               (let parts = split_on (CHR '','') line
                in if length parts < 5 then Inr None
                   else
                     (case toint (parts ! 4) of
                        Inl e \<Rightarrow> Inl e
                      | Inr code \<Rightarrow> Inr (Some (parts ! 1, code))))))"

fun cloc_loop ::
  "(string \<Rightarrow> error + int) \<Rightarrow> string list \<Rightarrow> int \<times> (string \<times> int) list \<Rightarrow>
   error + int \<times> (string \<times> int) list" where
  "cloc_loop toint [] acc = Inr acc"
| "cloc_loop toint (line # rest) (tot, by_lang) =
     (case cloc_row toint line of
        Inl e \<Rightarrow> Inl e
      | Inr None \<Rightarrow> cloc_loop toint rest (tot, by_lang)
      | Inr (Some (lang, code)) \<Rightarrow>
          if lang = ''SUM'' then cloc_loop toint rest (code, by_lang)
          else cloc_loop toint rest (tot, AList.update lang code by_lang))"

text \<open>Lines 86 to 102: the parse of the standard output of \<^verbatim>\<open>cloc\<close>.\<close>

definition parse_cloc ::
  "(string \<Rightarrow> error + int) \<Rightarrow> string \<Rightarrow> error + int \<times> (string \<times> int) list" where
  "parse_cloc toint out = cloc_loop toint (splitlines (strip out)) (0, [])"

definition git_archive_cmd :: "string \<Rightarrow> string option \<Rightarrow> string list" where
  "git_archive_cmd commit_hash subpath =
     [''git'', ''archive'', commit_hash] @
     (case subpath of None \<Rightarrow> [] | Some p \<Rightarrow> if p = [] then [] else [''--'', p])"

definition cloc_cmd :: "string \<Rightarrow> string list" where
  "cloc_cmd tmp_path = [''cloc'', tmp_path, ''--csv'', ''--quiet'']"

text \<open>
  The body of the \<^verbatim>\<open>try\<close> block. \<^verbatim>\<open>open(tmp_path, "wb")\<close> creates the file when it is not
  there; \<^verbatim>\<open>git archive\<close> runs with a timeout of 120 seconds in the repository, \<^verbatim>\<open>cloc\<close>
  with 300 seconds and no working directory.
\<close>

definition cloc_try ::
  "(string \<Rightarrow> error + int) \<Rightarrow> env \<Rightarrow> world \<Rightarrow> string \<Rightarrow> string \<Rightarrow> string option \<Rightarrow>
   string \<Rightarrow> (error + int \<times> (string \<times> int) list) \<times> world" where
  "cloc_try toint E w repo_path commit_hash subpath tmp_path =
     (case subprocess_run E (w\<lparr>files := insert tmp_path (files w)\<rparr>)
             (git_archive_cmd commit_hash subpath, Some repo_path, 120) of
        (Raised e, w1) \<Rightarrow> (Inl e, w1)
      | (Completed returncode out err, w1) \<Rightarrow>
          if returncode \<noteq> 0 then (Inr (0, []), w1)
          else
            (case subprocess_run E w1 (cloc_cmd tmp_path, None, 300) of
               (Raised e, w2) \<Rightarrow> (Inl e, w2)
             | (Completed returncode2 out2 err2, w2) \<Rightarrow>
                 if returncode2 \<noteq> 0 then (Inr (0, []), w2)
                 else (parse_cloc toint out2, w2)))"

text \<open>The \<^verbatim>\<open>finally\<close> clause: \<^verbatim>\<open>if os.path.exists(tmp_path): os.unlink(tmp_path)\<close>.\<close>

definition cloc_finally :: "string \<Rightarrow> world \<Rightarrow> world" where
  "cloc_finally tmp_path w =
     (if tmp_path \<in> files w then w\<lparr>files := files w - {tmp_path}\<rparr> else w)"

text \<open>
  \<^verbatim>\<open>NamedTemporaryFile(suffix=".tar", delete=False)\<close> creates a file whose name the
  environment chooses; the \<^verbatim>\<open>try\<close> block runs, and the \<^verbatim>\<open>finally\<close> clause runs on its
  return and on its exception alike. Creating, opening and unlinking the file are taken
  to succeed: the exceptions of the model are those of \<^verbatim>\<open>subprocess.run\<close> and of the parse.
\<close>

definition cloc_from_archive ::
  "(string \<Rightarrow> error + int) \<Rightarrow> env \<Rightarrow> world \<Rightarrow> string \<Rightarrow> string \<Rightarrow> string option \<Rightarrow>
   (error + int \<times> (string \<times> int) list) \<times> world" where
  "cloc_from_archive toint E w repo_path commit_hash subpath =
     (let tmp_path = mktemp E w
      in case cloc_try toint E (w\<lparr>files := insert tmp_path (files w)\<rparr>)
                repo_path commit_hash subpath tmp_path of
           (r, w') \<Rightarrow> (r, cloc_finally tmp_path w'))"

section \<open>The path existence oracle: \<^verbatim>\<open>_has_subpath\<close>\<close>

definition ls_tree_cmd :: "string \<Rightarrow> string \<Rightarrow> string list" where
  "ls_tree_cmd commit_hash subpath = [''git'', ''ls-tree'', ''-d'', commit_hash, ''--'', subpath]"

definition has_subpath ::
  "env \<Rightarrow> world \<Rightarrow> string \<Rightarrow> string \<Rightarrow> string \<Rightarrow> (error + bool) \<times> world" where
  "has_subpath E w repo_path commit_hash subpath =
     (case run E w (ls_tree_cmd commit_hash subpath) repo_path of
        (Raised e, w') \<Rightarrow> (Inl e, w')
      | (Completed returncode out err, w') \<Rightarrow> (Inr (returncode = 0 \<and> strip out \<noteq> []), w'))"

section \<open>Snapshots: \<^verbatim>\<open>LOCSnapshot\<close> and \<^verbatim>\<open>collect_snapshots\<close>\<close>

record 'd LOCSnapshot =
  month :: string
  commit_hash :: string
  commit_date :: 'd
  repo_total :: int
  repo_by_lang :: "(string \<times> int) list"
  subdir_totals :: "(string \<times> int) list"
  subdir_by_lang :: "(string \<times> (string \<times> int) list) list"

subsection \<open>Floating point\<close>

text \<open>
  A Python \<^verbatim>\<open>float\<close> is an IEEE 754 double. \<open>Finite s m e\<close> is the double of sign \<open>s\<close>
  (\<open>True\<close> for minus) and magnitude \<open>m\<close> times 2 to the power \<open>e\<close>, in the one form with
  \<open>m\<close> below 2 to the 53, \<open>e\<close> from -1074 to 971, and \<open>m\<close> at least 2 to the 52 unless
  \<open>e\<close> is -1074; so \<^verbatim>\<open>0.0\<close> is \<open>Finite False 0 (- 1074)\<close> and \<^verbatim>\<open>-0.0\<close> is
  \<open>Finite True 0 (- 1074)\<close>. \<open>Inf s\<close> is an infinity and \<open>NaN\<close> is not a number.
\<close>

datatype pyfloat = Finite bool nat int | Inf bool | NaN

definition zero_float :: "bool \<Rightarrow> pyfloat" where
  "zero_float sign = Finite sign 0 (- 1074)"

text \<open>\<^verbatim>\<open>int.bit_length\<close> of a natural number.\<close>

fun bit_length :: "nat \<Rightarrow> nat" where
  "bit_length n = (if n = 0 then 0 else Suc (bit_length (n div 2)))"

declare bit_length.simps [simp del]

text \<open>
  For positive \<open>a\<close> and \<open>b\<close>, the largest \<open>k\<close> with 2 to the \<open>k\<close> at most \<open>a / b\<close>: the
  difference \<open>d\<close> of the bit lengths, or \<open>d - 1\<close>.
\<close>

definition floor_log2 :: "nat \<Rightarrow> nat \<Rightarrow> int" where
  "floor_log2 a b =
     (let d = int (bit_length a) - int (bit_length b)
      in if b * 2 ^ nat d \<le> a * 2 ^ nat (- d) then d else d - 1)"

text \<open>The integer nearest to \<open>num / den\<close>, the even one of two that are equally near.\<close>

definition round_half_even :: "nat \<Rightarrow> nat \<Rightarrow> nat" where
  "round_half_even num den =
     (let q = num div den; r = num mod den
      in if 2 * r < den then q else if den < 2 * r then q + 1 else if even q then q else q + 1)"

text \<open>
  The double nearest to \<open>a / b\<close> with the given sign, ties to even: 53 significant bits,
  fewer below 2 to the -1022, and \<open>None\<close> when the rounded magnitude reaches 2 to the 1024.
\<close>

definition round_ratio :: "bool \<Rightarrow> nat \<Rightarrow> nat \<Rightarrow> pyfloat option" where
  "round_ratio sign a b =
     (if a = 0 then Some (zero_float sign)
      else
        (let e = max (floor_log2 a b - 52) (- 1074);
             m = round_half_even (a * 2 ^ nat (- e)) (b * 2 ^ nat e)
         in if m = 2 ^ 53 then (if 971 < e + 1 then None else Some (Finite sign (2 ^ 52) (e + 1)))
            else if 971 < e then None
            else Some (Finite sign m e)))"

text \<open>
  \<^verbatim>\<open>a / b\<close> on integers: \<open>ZeroDivisionError\<close> when \<^verbatim>\<open>b\<close> is zero, otherwise the correctly
  rounded quotient, or \<open>OverflowError\<close> when it is too large for a double. A zero quotient
  has the sign of the operands: \<^verbatim>\<open>0 / -5\<close> is \<^verbatim>\<open>-0.0\<close>.
\<close>

definition truediv :: "int \<Rightarrow> int \<Rightarrow> error + pyfloat" where
  "truediv a b =
     (if b = 0 then Inl ZeroDivisionError
      else
        (case round_ratio ((a < 0) \<noteq> (b < 0)) (nat \<bar>a\<bar>) (nat \<bar>b\<bar>) of
           None \<Rightarrow> Inl OverflowError
         | Some f \<Rightarrow> Inr f))"

text \<open>The conversion of an integer operand to \<^verbatim>\<open>float\<close>.\<close>

definition float_of_int :: "int \<Rightarrow> error + pyfloat" where
  "float_of_int n =
     (case round_ratio (n < 0) (nat \<bar>n\<bar>) 1 of None \<Rightarrow> Inl OverflowError | Some f \<Rightarrow> Inr f)"

text \<open>
  \<^verbatim>\<open>x * y\<close> on floats: the correctly rounded product, an infinity when it is too large
  (a product of floats raises nothing).
\<close>

fun fmul :: "pyfloat \<Rightarrow> pyfloat \<Rightarrow> pyfloat" where
  "fmul (Finite s m e) (Finite t n f) =
     (case round_ratio (s \<noteq> t) (m * n * 2 ^ nat (e + f)) (2 ^ nat (- (e + f))) of
        None \<Rightarrow> Inf (s \<noteq> t)
      | Some r \<Rightarrow> r)"
| "fmul (Finite s m e) (Inf t) = (if m = 0 then NaN else Inf (s \<noteq> t))"
| "fmul (Inf s) (Finite t n f) = (if n = 0 then NaN else Inf (s \<noteq> t))"
| "fmul (Inf s) (Inf t) = Inf (s \<noteq> t)"
| "fmul NaN y = NaN"
| "fmul x NaN = NaN"

text \<open>\<^verbatim>\<open>d.get(k, default)\<close>.\<close>

definition dict_get :: "('k \<times> 'v) list \<Rightarrow> 'k \<Rightarrow> 'v \<Rightarrow> 'v" where
  "dict_get d k dflt = (case map_of d k of None \<Rightarrow> dflt | Some v \<Rightarrow> v)"

text \<open>
  \<^verbatim>\<open>subdir_pct\<close>: the literal \<^verbatim>\<open>0.0\<close>, or the quotient of the two integers times 100,
  where the integer 100 is converted to \<^verbatim>\<open>float\<close> for the product.
\<close>

definition subdir_pct :: "'d LOCSnapshot \<Rightarrow> string \<Rightarrow> error + pyfloat" where
  "subdir_pct self subdir =
     (if repo_total self = 0 then Inr (zero_float False)
      else
        (case truediv (dict_get (subdir_totals self) subdir 0) (repo_total self) of
           Inl e \<Rightarrow> Inl e
         | Inr q \<Rightarrow>
             (case float_of_int 100 of
                Inl e \<Rightarrow> Inl e
              | Inr c \<Rightarrow> Inr (fmul q c))))"

text \<open>\<^verbatim>\<open>sd.strip("/") + "/"\<close>.\<close>

definition normalize_subdir :: "string \<Rightarrow> string" where
  "normalize_subdir sd = strip_chars (\<lambda>c. c = CHR ''/'') sd @ ''/''"

text \<open>
  The body of the loop over the tracked subdirectories, for one subdirectory, and the loop.
  The two dictionaries \<^verbatim>\<open>subdir_totals\<close> and \<^verbatim>\<open>subdir_by_lang\<close> are threaded as a pair.
\<close>

definition subdir_step ::
  "(string \<Rightarrow> error + int) \<Rightarrow> env \<Rightarrow> world \<Rightarrow> string \<Rightarrow> string \<Rightarrow> string \<Rightarrow>
   (string \<times> int) list \<times> (string \<times> (string \<times> int) list) list \<Rightarrow>
   (error + (string \<times> int) list \<times> (string \<times> (string \<times> int) list) list) \<times> world" where
  "subdir_step toint E w repo_path commit sd acc =
     (case has_subpath E w repo_path commit sd of
        (Inl e, w1) \<Rightarrow> (Inl e, w1)
      | (Inr present, w1) \<Rightarrow>
          if present then
            (case cloc_from_archive toint E w1 repo_path commit (Some sd) of
               (Inl e, w2) \<Rightarrow> (Inl e, w2)
             | (Inr (tot, by_lang), w2) \<Rightarrow>
                 (Inr (AList.update sd tot (fst acc), AList.update sd by_lang (snd acc)), w2))
          else (Inr (AList.update sd 0 (fst acc), AList.update sd [] (snd acc)), w1))"

fun subdir_loop ::
  "(string \<Rightarrow> error + int) \<Rightarrow> env \<Rightarrow> world \<Rightarrow> string \<Rightarrow> string \<Rightarrow> string list \<Rightarrow>
   (string \<times> int) list \<times> (string \<times> (string \<times> int) list) list \<Rightarrow>
   (error + (string \<times> int) list \<times> (string \<times> (string \<times> int) list) list) \<times> world" where
  "subdir_loop toint E w repo_path commit [] acc = (Inr acc, w)"
| "subdir_loop toint E w repo_path commit (sd # sds) acc =
     (case subdir_step toint E w repo_path commit sd acc of
        (Inl e, w1) \<Rightarrow> (Inl e, w1)
      | (Inr acc1, w1) \<Rightarrow> subdir_loop toint E w1 repo_path commit sds acc1)"

text \<open>
  The loop over the monthly commits. \<open>n\<close> is \<^verbatim>\<open>len(commits)\<close> and \<open>i\<close> the index of
  \<^verbatim>\<open>enumerate\<close>. The optional callback \<^verbatim>\<open>on_progress\<close> is modelled by whether the caller
  gave one and by the notifications it receives (a callback that raises is not
  modelled). An exception leaves the loop with no list of snapshots.
\<close>

fun snapshot_loop ::
  "(string \<Rightarrow> error + int) \<Rightarrow> env \<Rightarrow> world \<Rightarrow> string \<Rightarrow> string list \<Rightarrow> bool \<Rightarrow> nat \<Rightarrow> nat \<Rightarrow>
   'd entry list \<Rightarrow> 'd LOCSnapshot list \<Rightarrow> (error + 'd LOCSnapshot list) \<times> world" where
  "snapshot_loop toint E w repo_path subdirs on_progress n i [] snapshots = (Inr snapshots, w)"
| "snapshot_loop toint E w repo_path subdirs on_progress n i (ent # rest) snapshots =
     (case cloc_from_archive toint E
             (if on_progress then w\<lparr>notified := notified w @ [(i + 1, n, emonth ent)]\<rparr> else w)
             repo_path (ehash ent) None of
        (Inl e, w1) \<Rightarrow> (Inl e, w1)
      | (Inr (tot, by_lang), w1) \<Rightarrow>
          (case subdir_loop toint E w1 repo_path (ehash ent) subdirs ([], []) of
             (Inl e, w2) \<Rightarrow> (Inl e, w2)
           | (Inr (totals, by_langs), w2) \<Rightarrow>
               snapshot_loop toint E w2 repo_path subdirs on_progress n (i + 1) rest
                 (snapshots @
                  [\<lparr>month = emonth ent, commit_hash = ehash ent, commit_date = edate ent,
                    repo_total = tot, repo_by_lang = by_lang,
                    subdir_totals = totals, subdir_by_lang = by_langs\<rparr>])))"

definition collect_snapshots ::
  "(string \<Rightarrow> error + 'd) \<Rightarrow> (string \<Rightarrow> error + int) \<Rightarrow> env \<Rightarrow> world \<Rightarrow> string \<Rightarrow> string \<Rightarrow>
   string list option \<Rightarrow> bool \<Rightarrow> (error + 'd LOCSnapshot list) \<times> world" where
  "collect_snapshots fromiso toint E w repo_path branch subdirs on_progress =
     (case get_monthly_commits fromiso E w repo_path branch of
        (Inl e, w1) \<Rightarrow> (Inl e, w1)
      | (Inr commits, w1) \<Rightarrow>
          snapshot_loop toint E w1 repo_path
            (map normalize_subdir (case subdirs of None \<Rightarrow> [] | Some sds \<Rightarrow> sds))
            on_progress (length commits) 0 commits [])"

section \<open>The library functions at concrete inputs\<close>

text \<open>
  The general theorems hold for every \<open>fromiso\<close> and every \<open>toint\<close>. To evaluate the
  code at concrete inputs, the two functions are given on the texts that \<^verbatim>\<open>git\<close> and
  \<^verbatim>\<open>cloc\<close> print. \<open>int_of_str\<close> reads what \<^verbatim>\<open>int\<close> reads in base ten: white space around
  an optional sign and decimal digits, single underscores allowed between digits; any
  other text is a \<open>ValueError\<close>. The white space that \<^verbatim>\<open>int\<close> drops is narrower than
  \<^verbatim>\<open>str.isspace\<close>: code points 9-13, 32, 133 and 160, not 28-31. (The limit of CPython on
  the number of digits is left out.) \<open>fromisoformat\<close> reads the one layout \<^verbatim>\<open>YYYY-MM-DDTHH:MM:SS\<close> into a date without
  time zone, as \<^verbatim>\<open>datetime.fromisoformat\<close> does on it, and rejects every other text
  (the library accepts further layouts, which \<^verbatim>\<open>git log\<close> does not produce).
\<close>

definition isdecimal :: "char \<Rightarrow> bool" where
  "isdecimal c = (48 \<le> (of_char c :: nat) \<and> (of_char c :: nat) \<le> 57)"

definition decimal :: "string \<Rightarrow> nat" where
  "decimal s = foldl (\<lambda>n c. 10 * n + (of_char c - 48)) 0 s"

definition int_space :: "char \<Rightarrow> bool" where
  "int_space c =
     (let n = (of_char c :: nat)
      in (9 \<le> n \<and> n \<le> 13) \<or> n = 32 \<or> n = 133 \<or> n = 160)"

definition int_of_str :: "string \<Rightarrow> error + int" where
  "int_of_str s =
     (let t = strip_chars int_space s;
          neg = (t \<noteq> [] \<and> hd t = CHR ''-'');
          body = (if t \<noteq> [] \<and> (hd t = CHR ''-'' \<or> hd t = CHR ''+'') then tl t else t)
      in if list_all (\<lambda>g. g \<noteq> [] \<and> list_all isdecimal g) (split_on (CHR ''_'') body)
         then Inr ((if neg then - 1 else 1) * int (decimal (filter isdecimal body)))
         else Inl ValueError)"

record datetime =
  dt_year :: nat
  dt_month :: nat
  dt_day :: nat
  dt_hour :: nat
  dt_minute :: nat
  dt_second :: nat
  tzinfo :: "int option"

definition days_in_month :: "nat \<Rightarrow> nat \<Rightarrow> nat" where
  "days_in_month y m =
     (if m = 2 then (if y mod 4 = 0 \<and> (y mod 100 \<noteq> 0 \<or> y mod 400 = 0) then 29 else 28)
      else if m = 4 \<or> m = 6 \<or> m = 9 \<or> m = 11 then 30 else 31)"

definition substr :: "string \<Rightarrow> nat \<Rightarrow> nat \<Rightarrow> string" where
  "substr s i n = take n (drop i s)"

definition fromisoformat :: "string \<Rightarrow> error + datetime" where
  "fromisoformat s =
     (let y = decimal (substr s 0 4); m = decimal (substr s 5 2); d = decimal (substr s 8 2);
          hh = decimal (substr s 11 2); mm = decimal (substr s 14 2); ss = decimal (substr s 17 2)
      in if length s = 19 \<and> substr s 4 1 = ''-'' \<and> substr s 7 1 = ''-'' \<and> substr s 10 1 = ''T''
            \<and> substr s 13 1 = '':'' \<and> substr s 16 1 = '':''
            \<and> list_all isdecimal (substr s 0 4 @ substr s 5 2 @ substr s 8 2 @
                                    substr s 11 2 @ substr s 14 2 @ substr s 17 2)
            \<and> 1 \<le> y \<and> 1 \<le> m \<and> m \<le> 12 \<and> 1 \<le> d \<and> d \<le> days_in_month y m
            \<and> hh < 24 \<and> mm < 60 \<and> ss < 60
         then Inr \<lparr>dt_year = y, dt_month = m, dt_day = d, dt_hour = hh, dt_minute = mm,
                    dt_second = ss, tzinfo = None\<rparr>
         else Inl ValueError)"

section \<open>Notions used in the statements\<close>

text \<open>
  A line of the report is a data line when the loop body reaches the conversion of its
  fifth field: it does not start with \<^verbatim>\<open>files\<close>, its first character is a digit, and it has
  at least five comma-separated fields.
\<close>

definition is_data_line :: "string \<Rightarrow> bool" where
  "is_data_line line =
     (\<not> startswith line ''files'' \<and> line \<noteq> [] \<and> isdigit (hd line)
      \<and> 5 \<le> length (split_on (CHR '','') line))"

text \<open>The data rows (language, code count) that the loop body reads off a list of lines.\<close>

definition data_rows :: "(string \<Rightarrow> error + int) \<Rightarrow> string list \<Rightarrow> (string \<times> int) list" where
  "data_rows toint ls =
     concat (map (\<lambda>l. case cloc_row toint l of Inr (Some r) \<Rightarrow> [r] | _ \<Rightarrow> []) ls)"

definition sum_rows :: "(string \<times> int) list \<Rightarrow> (string \<times> int) list" where
  "sum_rows rows = filter (\<lambda>r. fst r = ''SUM'') rows"

definition lang_rows :: "(string \<times> int) list \<Rightarrow> (string \<times> int) list" where
  "lang_rows rows = filter (\<lambda>r. fst r \<noteq> ''SUM'') rows"

text \<open>The effect of one data row on the pair \<^verbatim>\<open>(total, by_lang)\<close>.\<close>

fun row_step :: "string \<times> int \<Rightarrow> int \<times> (string \<times> int) list \<Rightarrow> int \<times> (string \<times> int) list" where
  "row_step (lang, code) (tot, by_lang) =
     (if lang = ''SUM'' then (code, by_lang) else (tot, AList.update lang code by_lang))"

text \<open>The two subdirectory dictionaries of a snapshot list the same keys, the tracked paths.\<close>

definition keys_agree :: "string list \<Rightarrow> 'd LOCSnapshot \<Rightarrow> bool" where
  "keys_agree sds s =
     (map fst (subdir_totals s) = map fst (subdir_by_lang s)
      \<and> fst ` set (subdir_totals s) = set sds)"

section \<open>Concrete inputs\<close>

text \<open>
  A scripted environment answers a call by its command line alone, leaves the files as
  they are and always hands out the same temporary name. The scenario: three commits on
  5 and 20 January and 3 February 2024, the directory \<^verbatim>\<open>apps/web\<close> present only at the
  February commit, and one \<^verbatim>\<open>cloc\<close> report for every tree.
\<close>

definition nl :: string where
  "nl = [CHR 0x0A]"

definition w0 :: world where
  "w0 = \<lparr>files = {}, calls = [], notified = []\<rparr>"

definition scripted :: "(string list \<Rightarrow> proc_outcome) \<Rightarrow> env" where
  "scripted answer =
     \<lparr>exec = (\<lambda>w c. (answer (fst c), files w)), mktemp = (\<lambda>w. ''/tmp/tmpk2.tar'')\<rparr>"

definition completes :: "int \<Rightarrow> string \<Rightarrow> string \<Rightarrow> string list \<Rightarrow> proc_outcome" where
  "completes returncode out err cmd = Completed returncode out err"

definition raises :: "error \<Rightarrow> string list \<Rightarrow> proc_outcome" where
  "raises e cmd = Raised e"

definition cloc_fails :: "string list \<Rightarrow> proc_outcome" where
  "cloc_fails cmd =
     (if take 1 cmd = [''cloc''] then Completed 1 [] ''cloc: error'' else Completed 0 [] [])"

definition demo_csv :: string where
  "demo_csv =
     ''files,language,blank,comment,code'' @ nl @ ''2,Python,10,5,100'' @ nl @
     ''1,Markdown,3,0,20'' @ nl @ ''3,SUM,13,5,120'' @ nl"

definition demo_log :: string where
  "demo_log =
     ''a1 2024-01-05 10:00:00 +0100'' @ nl @ ''b2 2024-01-20 09:30:00 +0100'' @ nl @
     ''c3 2024-02-03 18:45:10 -0500'' @ nl"

definition demo_answer :: "string list \<Rightarrow> proc_outcome" where
  "demo_answer cmd =
     (if take 2 cmd = [''git'', ''log''] then Completed 0 demo_log []
      else if take 2 cmd = [''git'', ''ls-tree''] then
        (if cmd = ls_tree_cmd ''c3'' ''apps/web/'' then Completed 0 ''040000 tree 7f3a apps/web'' []
         else Completed 0 [] [])
      else if take 2 cmd = [''git'', ''archive''] then Completed 0 [] []
      else if take 1 cmd = [''cloc''] then Completed 0 demo_csv []
      else Raised OSError)"

text \<open>The same scenario, but every \<^verbatim>\<open>git archive\<close> of a subdirectory times out.\<close>

definition slow_subdir :: "string list \<Rightarrow> proc_outcome" where
  "slow_subdir cmd =
     (if take 2 cmd = [''git'', ''archive''] \<and> length cmd = 5 then Raised TimeoutExpired
      else demo_answer cmd)"

definition demo_history :: "datetime entry list" where
  "demo_history =
     [\<lparr>ehash = ''a1'',
       edate = \<lparr>dt_year = 2024, dt_month = 1, dt_day = 5, dt_hour = 10, dt_minute = 0,
                dt_second = 0, tzinfo = None\<rparr>,
       emonth = ''2024-01''\<rparr>,
      \<lparr>ehash = ''b2'',
       edate = \<lparr>dt_year = 2024, dt_month = 1, dt_day = 20, dt_hour = 9, dt_minute = 30,
                dt_second = 0, tzinfo = None\<rparr>,
       emonth = ''2024-01''\<rparr>,
      \<lparr>ehash = ''c3'',
       edate = \<lparr>dt_year = 2024, dt_month = 2, dt_day = 3, dt_hour = 18, dt_minute = 45,
                dt_second = 10, tzinfo = None\<rparr>,
       emonth = ''2024-02''\<rparr>]"

text \<open>What \<^verbatim>\<open>git log\<close> prints, with exit code 128, on a branch that has no commit yet.\<close>

definition no_commits_msg :: string where
  "no_commits_msg =
     ''fatal: your current branch '' @ [CHR 0x27] @ ''main'' @ [CHR 0x27] @
     '' does not have any commits yet''"

text \<open>A snapshot with a given total and given totals of the subdirectories.\<close>

definition pct_snapshot :: "int \<Rightarrow> (string \<times> int) list \<Rightarrow> datetime LOCSnapshot" where
  "pct_snapshot tot subs =
     \<lparr>month = ''2024-02'', commit_hash = ''c3'', commit_date = edate (demo_history ! 2),
      repo_total = tot, repo_by_lang = [], subdir_totals = subs, subdir_by_lang = []\<rparr>"

definition demo_snapshots :: "datetime LOCSnapshot list" where
  "demo_snapshots =
     [\<lparr>month = ''2024-01'', commit_hash = ''b2'', commit_date = edate (demo_history ! 1),
       repo_total = 120, repo_by_lang = [(''Python'', 100), (''Markdown'', 20)],
       subdir_totals = [(''apps/web/'', 0)], subdir_by_lang = [(''apps/web/'', [])]\<rparr>,
      \<lparr>month = ''2024-02'', commit_hash = ''c3'', commit_date = edate (demo_history ! 2),
       repo_total = 120, repo_by_lang = [(''Python'', 100), (''Markdown'', 20)],
       subdir_totals = [(''apps/web/'', 120)],
       subdir_by_lang = [(''apps/web/'', [(''Python'', 100), (''Markdown'', 20)])]\<rparr>]"

section \<open>Evaluation of the concrete inputs\<close>

lemmas string_eval =
  strip_def strip_chars_def isspace_def splitlines_def islinebreak_def split_def split_on_def
  startswith_def isdigit_def nl_def

lemmas int_eval = int_of_str_def int_space_def isdecimal_def decimal_def

lemmas iso_eval = fromisoformat_def substr_def decimal_def isdecimal_def days_in_month_def

lemma scripted_run:
  "subprocess_run (scripted f) w c = (f (fst c), w\<lparr>calls := calls w @ [c]\<rparr>)"
  by (simp add: subprocess_run_def scripted_def)

lemma scripted_mktemp: "mktemp (scripted f) w = ''/tmp/tmpk2.tar''"
  by (simp add: scripted_def)

lemma scripted_cloc:
  assumes "f (git_archive_cmd commit subpath) = Completed 0 a b"
    and "f (cloc_cmd ''/tmp/tmpk2.tar'') = Completed 0 out err"
  shows "cloc_from_archive toint (scripted f) w repo_path commit subpath =
           (parse_cloc toint out,
            w\<lparr>files := files w - {''/tmp/tmpk2.tar''},
               calls := calls w @ [(git_archive_cmd commit subpath, Some repo_path, 120),
                                   (cloc_cmd ''/tmp/tmpk2.tar'', None, 300)]\<rparr>)"
  using assms
  by (simp add: cloc_from_archive_def cloc_try_def cloc_finally_def scripted_run scripted_mktemp
      Let_def)

lemma scripted_cloc_raised:
  assumes "f (git_archive_cmd commit subpath) = Raised e"
  shows "cloc_from_archive toint (scripted f) w repo_path commit subpath =
           (Inl e,
            w\<lparr>files := files w - {''/tmp/tmpk2.tar''},
               calls := calls w @ [(git_archive_cmd commit subpath, Some repo_path, 120)]\<rparr>)"
  using assms
  by (simp add: cloc_from_archive_def cloc_try_def cloc_finally_def scripted_run scripted_mktemp
      Let_def)

lemma scripted_has_subpath:
  assumes "f (ls_tree_cmd commit sd) = Completed returncode out err"
  shows "has_subpath (scripted f) w repo_path commit sd =
           (Inr (returncode = 0 \<and> strip out \<noteq> []),
            w\<lparr>calls := calls w @ [(ls_tree_cmd commit sd, Some repo_path, 300)]\<rparr>)"
  using assms by (simp add: has_subpath_def run_def scripted_run)

lemma demo_split:
  "split ''a1 2024-01-05 10:00:00 +0100'' = [''a1'', ''2024-01-05'', ''10:00:00'', ''+0100'']"
  "split ''a1 2024-01-05 10:00:00 -0500'' = [''a1'', ''2024-01-05'', ''10:00:00'', ''-0500'']"
  "split ''b2 2024-01-20 09:30:00 +0100'' = [''b2'', ''2024-01-20'', ''09:30:00'', ''+0100'']"
  "split ''c3 2024-02-03 18:45:10 -0500'' = [''c3'', ''2024-02-03'', ''18:45:10'', ''-0500'']"
  by (simp_all add: split_def isspace_def)

lemma demo_iso:
  "fromisoformat ''2024-01-05T10:00:00'' =
     Inr \<lparr>dt_year = 2024, dt_month = 1, dt_day = 5, dt_hour = 10, dt_minute = 0,
          dt_second = 0, tzinfo = None\<rparr>"
  "fromisoformat ''2024-01-20T09:30:00'' =
     Inr \<lparr>dt_year = 2024, dt_month = 1, dt_day = 20, dt_hour = 9, dt_minute = 30,
          dt_second = 0, tzinfo = None\<rparr>"
  "fromisoformat ''2024-02-03T18:45:10'' =
     Inr \<lparr>dt_year = 2024, dt_month = 2, dt_day = 3, dt_hour = 18, dt_minute = 45,
          dt_second = 10, tzinfo = None\<rparr>"
  by (simp_all add: iso_eval)

lemma demo_log_lines:
  "splitlines (strip demo_log) =
     [''a1 2024-01-05 10:00:00 +0100'', ''b2 2024-01-20 09:30:00 +0100'',
      ''c3 2024-02-03 18:45:10 -0500'']"
  by (simp add: demo_log_def string_eval)

lemma single_line:
  "splitlines (strip ''a1 2024-01-05 10:00:00 +0100'') = [''a1 2024-01-05 10:00:00 +0100'']"
  "splitlines (strip ''a1 2024-01-05 10:00:00 -0500'') = [''a1 2024-01-05 10:00:00 -0500'']"
  by (simp_all add: string_eval)

lemma demo_log_history:
  "map (commit_line fromisoformat) (splitlines (strip demo_log)) = map Inr demo_history"
  unfolding demo_log_lines by (simp add: commit_line_def demo_history_def demo_split demo_iso)

lemma demo_exec_log:
  "exec (scripted demo_answer) w0 (git_log_cmd ''main'', Some ''/repo'', 300)
     = (Completed 0 demo_log [], {})"
  by (simp add: scripted_def demo_answer_def git_log_cmd_def w0_def)

lemma demo_csv_lines:
  "splitlines (strip demo_csv) =
     [''files,language,blank,comment,code'', ''2,Python,10,5,100'', ''1,Markdown,3,0,20'',
      ''3,SUM,13,5,120'']"
  by (simp add: demo_csv_def string_eval)

lemma demo_csv_rows:
  "data_rows int_of_str (splitlines (strip demo_csv)) =
     [(''Python'', 100), (''Markdown'', 20), (''SUM'', 120)]"
  unfolding demo_csv_lines by (simp add: data_rows_def cloc_row_def string_eval int_eval)

lemma demo_parse:
  "parse_cloc int_of_str demo_csv = Inr (120, [(''Python'', 100), (''Markdown'', 20)])"
  unfolding parse_cloc_def demo_csv_lines by (simp add: cloc_row_def string_eval int_eval)

lemma demo_answers:
  "demo_answer (git_log_cmd br) = Completed 0 demo_log []"
  "demo_answer (git_archive_cmd c sp) = Completed 0 [] []"
  "demo_answer (cloc_cmd p) = Completed 0 demo_csv []"
  "demo_answer (ls_tree_cmd ''b2'' ''apps/web/'') = Completed 0 [] []"
  "demo_answer (ls_tree_cmd ''c3'' ''apps/web/'') = Completed 0 ''040000 tree 7f3a apps/web'' []"
  by (simp_all add: demo_answer_def git_log_cmd_def git_archive_cmd_def cloc_cmd_def ls_tree_cmd_def)

lemma slow_answers:
  "slow_subdir (git_log_cmd br) = Completed 0 demo_log []"
  "slow_subdir (git_archive_cmd c None) = Completed 0 [] []"
  "slow_subdir (git_archive_cmd c (Some ''apps/web/'')) = Raised TimeoutExpired"
  "slow_subdir (cloc_cmd p) = Completed 0 demo_csv []"
  "slow_subdir (ls_tree_cmd ''b2'' ''apps/web/'') = Completed 0 [] []"
  "slow_subdir (ls_tree_cmd ''c3'' ''apps/web/'') = Completed 0 ''040000 tree 7f3a apps/web'' []"
  by (simp_all add: slow_subdir_def demo_answer_def git_log_cmd_def git_archive_cmd_def
      cloc_cmd_def ls_tree_cmd_def)

lemma demo_present: "strip ''040000 tree 7f3a apps/web'' \<noteq> []" "strip [] = []"
  by (simp_all add: strip_def strip_chars_def isspace_def)

lemma demo_normalize: "normalize_subdir ''apps/web'' = ''apps/web/''"
  by (simp add: normalize_subdir_def strip_chars_def)

section \<open>The commit selector\<close>

lemma monthly_loop_fold:
  "map (commit_line fromiso) ls = map Inr hs \<Longrightarrow>
   monthly_loop fromiso ls monthly = Inr (fold (\<lambda>h. AList.update (emonth h) h) hs monthly)"
proof (induction ls arbitrary: hs monthly)
  case Nil
  then show ?case by simp
next
  case (Cons l ls)
  then obtain h hs' where hs: "hs = h # hs'" and l: "commit_line fromiso l = Inr h"
    and rest: "map (commit_line fromiso) ls = map Inr hs'"
    by (cases hs) auto
  show ?case using Cons.IH [OF rest] by (simp add: hs l)
qed

lemma monthly_loop_lines:
  "monthly_loop fromiso ls monthly = Inr monthly' \<Longrightarrow>
   \<exists>hs. map (commit_line fromiso) ls = map Inr hs"
proof (induction ls arbitrary: monthly)
  case Nil
  then show ?case by simp
next
  case (Cons l ls)
  then obtain h where h: "commit_line fromiso l = Inr h"
    and rest: "monthly_loop fromiso ls (AList.update (emonth h) h monthly) = Inr monthly'"
    by (cases "commit_line fromiso l") auto
  from Cons.IH [OF rest] obtain hs where "map (commit_line fromiso) ls = map Inr hs" by blast
  with h have "map (commit_line fromiso) (l # ls) = map Inr (h # hs)" by simp
  then show ?case by blast
qed

lemma fold_update_keys:
  "fst ` set (fold (\<lambda>h. AList.update (emonth h) h) hs monthly) =
     emonth ` set hs \<union> fst ` set monthly"
  by (induction hs arbitrary: monthly) (auto simp: dom_update)

lemma fold_update_distinct:
  "distinct (map fst monthly) \<Longrightarrow>
   distinct (map fst (fold (\<lambda>h. AList.update (emonth h) h) hs monthly))"
  by (induction hs arbitrary: monthly) (auto simp: distinct_update)

lemma fold_update_lookup:
  "map_of (fold (\<lambda>h. AList.update (emonth h) h) hs monthly) k =
     (if k \<in> emonth ` set hs then Some (last (filter (\<lambda>h. emonth h = k) hs))
      else map_of monthly k)"
proof (induction hs rule: rev_induct)
  case Nil
  then show ?case by simp
next
  case (snoc h hs)
  then show ?case by (auto simp: update_conv')
qed

lemma lookup_all_present:
  "set ks \<subseteq> fst ` set d \<Longrightarrow> lookup_all d ks = Inr (map (\<lambda>k. the (map_of d k)) ks)"
proof (induction ks)
  case Nil
  then show ?case by simp
next
  case (Cons k ks)
  then have "k \<in> fst ` set d" by simp
  then obtain v where "map_of d k = Some v"
    by (metis domD dom_map_of_conv_image_fst)
  with Cons show ?case by simp
qed

lemma sort_strict: "distinct xs \<Longrightarrow> sorted_wrt (<) (sort xs)"
  by (simp add: strict_sorted_iff)

lemma last_filter_month:
  assumes "k \<in> emonth ` set hs"
  shows "emonth (last (filter (\<lambda>h. emonth h = k) hs)) = k"
proof -
  from assms have ne: "filter (\<lambda>h. emonth h = k) hs \<noteq> []"
    by (auto simp: filter_empty_conv)
  from last_in_set [OF ne] show ?thesis by simp
qed

lemma selected_entries:
  assumes "map (commit_line fromiso) ls = map Inr hs"
    and "monthly_loop fromiso ls [] = Inr monthly"
  shows "\<exists>es. lookup_all monthly (sort (map fst monthly)) = Inr es
           \<and> sorted_wrt (<) (map emonth es)
           \<and> set (map emonth es) = set (map emonth hs)
           \<and> (\<forall>e\<in>set es. e \<in> set hs \<and> e = last (filter (\<lambda>h. emonth h = emonth e) hs))"
proof -
  let ?ks = "sort (map fst monthly)"
  let ?es = "map (\<lambda>k. the (map_of monthly k)) ?ks"
  from assms have m: "monthly = fold (\<lambda>h. AList.update (emonth h) h) hs []"
    by (simp add: monthly_loop_fold)
  have keys: "fst ` set monthly = emonth ` set hs"
    unfolding m by (simp add: fold_update_keys)
  have dist: "distinct (map fst monthly)"
    unfolding m by (rule fold_update_distinct) simp
  have look: "the (map_of monthly k) = last (filter (\<lambda>h. emonth h = k) hs)"
    if "k \<in> set ?ks" for k
    using that keys unfolding m by (simp add: fold_update_lookup)
  have mon: "emonth (the (map_of monthly k)) = k" if "k \<in> set ?ks" for k
    using that keys look [OF that] last_filter_month [of k hs] by simp
  have "map (\<lambda>k. emonth (the (map_of monthly k))) ?ks = ?ks"
    by (rule map_idI) (simp add: mon)
  then have months: "map emonth ?es = ?ks"
    by (simp add: comp_def)
  have 1: "lookup_all monthly ?ks = Inr ?es"
    by (rule lookup_all_present) simp
  have 2: "sorted_wrt (<) (map emonth ?es)"
    unfolding months using dist by (rule sort_strict)
  have 3: "set (map emonth ?es) = set (map emonth hs)"
    unfolding months using keys by simp
  have 4: "\<forall>e\<in>set ?es. e \<in> set hs \<and> e = last (filter (\<lambda>h. emonth h = emonth e) hs)"
  proof
    fix e assume "e \<in> set ?es"
    then obtain k where k: "k \<in> set ?ks" and e: "e = the (map_of monthly k)" by auto
    from mon [OF k] e have "emonth e = k" by simp
    with look [OF k] e have l: "e = last (filter (\<lambda>h. emonth h = emonth e) hs)" by simp
    from k keys have "k \<in> emonth ` set hs" by simp
    then have "filter (\<lambda>h. emonth h = k) hs \<noteq> []"
      by (auto simp: filter_empty_conv)
    from last_in_set [OF this] have "last (filter (\<lambda>h. emonth h = k) hs) \<in> set hs" by simp
    with look [OF k] e have "e \<in> set hs" by simp
    with l show "e \<in> set hs \<and> e = last (filter (\<lambda>h. emonth h = emonth e) hs)" by simp
  qed
  from 1 2 3 4 show ?thesis by blast
qed

lemma commit_line_fields:
  "commit_line fromiso l = Inr e \<Longrightarrow>
   \<exists>h d t rest. split l = h # d # t # rest \<and> ehash e = h \<and> emonth e = take 7 d
      \<and> fromiso (d @ ''T'' @ t) = Inr (edate e)"
  by (auto simp: commit_line_def split: list.splits sum.splits)

lemma split_from_token:
  "\<forall>c\<in>set tok. \<not> isspace c \<Longrightarrow> split_from cur (tok @ rest) = split_from (rev tok @ cur) rest"
  by (induction tok arbitrary: cur) auto

lemma split_token:
  assumes "tok \<noteq> []" and "\<forall>c\<in>set tok. \<not> isspace c"
  shows "split (tok @ CHR '' '' # rest) = tok # split rest"
proof -
  have "isspace (CHR '' '')" by (simp add: isspace_def)
  with assms(1) split_from_token [OF assms(2), of "[]" "CHR '' '' # rest"]
  show ?thesis by (simp add: split_def)
qed

text \<open>
  A line in the format of \<^verbatim>\<open>git log --format="%H %ai"\<close>: hash, date and time of day,
  separated by single spaces, followed by anything. The loop body reads the first three
  fields and nothing of what follows.
\<close>

lemma commit_line_git_format:
  assumes "h \<noteq> []" "d \<noteq> []" "t \<noteq> []"
    and "\<forall>c\<in>set (h @ d @ t). \<not> isspace c"
  shows "commit_line fromiso (h @ '' '' @ d @ '' '' @ t @ '' '' @ z) =
           (case fromiso (d @ ''T'' @ t) of
              Inl e \<Rightarrow> Inl e
            | Inr cd \<Rightarrow> Inr \<lparr>ehash = h, edate = cd, emonth = take 7 d\<rparr>)"
proof -
  from assms have "split (h @ '' '' @ d @ '' '' @ t @ '' '' @ z) = h # d # t # split z"
    by (simp add: split_token)
  then show ?thesis by (simp add: commit_line_def)
qed

text \<open>
  C1. Let \<^verbatim>\<open>git log\<close> exit with code 0 and let every line of its output be read by the
  loop body, giving the history \<open>hs\<close> in the order of the output (oldest first). Then
  \<^verbatim>\<open>get_monthly_commits\<close> returns a list whose month keys are strictly ascending, hence
  distinct; the month keys are exactly the months of the history; and every entry is an
  entry of the history, the last one of its month in the order of the input. Time stamps
  are never compared.
\<close>

theorem get_monthly_commits_last_per_month:
  assumes "exec E w (git_log_cmd branch, Some repo_path, 300) = (Completed 0 out err, fs)"
    and "map (commit_line fromiso) (splitlines (strip out)) = map Inr hs"
  shows "\<exists>es. fst (get_monthly_commits fromiso E w repo_path branch) = Inr es
           \<and> sorted_wrt (<) (map emonth es)
           \<and> distinct (map emonth es)
           \<and> set (map emonth es) = set (map emonth hs)
           \<and> (\<forall>e\<in>set es. e \<in> set hs \<and> e = last (filter (\<lambda>h. emonth h = emonth e) hs))"
proof -
  obtain monthly where ml: "monthly_loop fromiso (splitlines (strip out)) [] = Inr monthly"
    using assms(2) by (simp add: monthly_loop_fold)
  from selected_entries [OF assms(2) ml] obtain es where
    es: "lookup_all monthly (sort (map fst monthly)) = Inr es"
      "sorted_wrt (<) (map emonth es)"
      "set (map emonth es) = set (map emonth hs)"
      "\<forall>e\<in>set es. e \<in> set hs \<and> e = last (filter (\<lambda>h. emonth h = emonth e) hs)"
    by blast
  have "fst (get_monthly_commits fromiso E w repo_path branch) = Inr es"
    using assms(1) ml es(1) by (simp add: get_monthly_commits_def run_def subprocess_run_def)
  moreover have "distinct (map emonth es)"
    using es(2) by (simp add: strict_sorted_iff)
  ultimately show ?thesis using es by blast
qed

text \<open>
  The scenario: of the two January commits the later one in the input is kept, and the
  result has the two months in ascending order.
\<close>

theorem get_monthly_commits_last_per_month_witness:
  "\<exists>es. fst (get_monthly_commits fromisoformat (scripted demo_answer) w0 ''/repo'' ''main'') = Inr es
     \<and> sorted_wrt (<) (map emonth es)
     \<and> distinct (map emonth es)
     \<and> set (map emonth es) = {''2024-01'', ''2024-02''}
     \<and> (\<forall>e\<in>set es. e \<in> set demo_history
            \<and> e = last (filter (\<lambda>h. emonth h = emonth e) demo_history))"
proof -
  have "set (map emonth demo_history) = {''2024-01'', ''2024-02''}"
    by (simp add: demo_history_def)
  with get_monthly_commits_last_per_month [OF demo_exec_log demo_log_history]
  show ?thesis by simp
qed

lemma scripted_commits:
  assumes "f (git_log_cmd ''main'') = Completed 0 demo_log []"
  shows "get_monthly_commits fromisoformat (scripted f) w0 ''/repo'' ''main''
     = (Inr [demo_history ! 1, demo_history ! 2],
        w0\<lparr>calls := [(git_log_cmd ''main'', Some ''/repo'', 300)]\<rparr>)"
proof -
  have r: "run (scripted f) w0 (git_log_cmd ''main'') ''/repo''
            = (Completed 0 demo_log [], w0\<lparr>calls := [(git_log_cmd ''main'', Some ''/repo'', 300)]\<rparr>)"
    by (simp add: run_def scripted_run assms) (simp add: w0_def)
  show ?thesis
    unfolding get_monthly_commits_def r
    by (simp add: monthly_loop_fold [OF demo_log_history]) (simp add: demo_history_def)
qed

text \<open>
  C9 (amended). Every entry that \<^verbatim>\<open>get_monthly_commits\<close> returns comes from a line of the
  output of \<^verbatim>\<open>git log\<close> whose first three fields are the hash, the date and the time of
  day: the stored date is \<^verbatim>\<open>fromisoformat\<close> of the date and the time of day alone, and
  the month is the first seven characters of the date. The fourth field, the offset of the
  time zone, is among the remaining fields, which the code does not read.
\<close>

theorem commit_date_from_date_and_time:
  assumes "fst (get_monthly_commits fromiso E w repo_path branch) = Inr es"
    and "e \<in> set es"
  shows "\<exists>out err fs l h d t rest.
           exec E w (git_log_cmd branch, Some repo_path, 300) = (Completed 0 out err, fs)
         \<and> l \<in> set (splitlines (strip out))
         \<and> split l = h # d # t # rest
         \<and> ehash e = h
         \<and> emonth e = take 7 d
         \<and> fromiso (d @ ''T'' @ t) = Inr (edate e)"
proof -
  obtain r fs where ex: "exec E w (git_log_cmd branch, Some repo_path, 300) = (r, fs)"
    by (cases "exec E w (git_log_cmd branch, Some repo_path, 300)")
  from assms(1) ex obtain out err where r: "r = Completed 0 out err"
    by (cases r) (auto simp: get_monthly_commits_def run_def subprocess_run_def split: if_splits)
  let ?ls = "splitlines (strip out)"
  from assms(1) ex r obtain monthly where ml: "monthly_loop fromiso ?ls [] = Inr monthly"
    and la: "lookup_all monthly (sort (map fst monthly)) = Inr es"
    by (cases "monthly_loop fromiso ?ls []")
       (auto simp: get_monthly_commits_def run_def subprocess_run_def)
  from monthly_loop_lines [OF ml] obtain hs where hs: "map (commit_line fromiso) ?ls = map Inr hs"
    by blast
  from selected_entries [OF hs ml] la assms(2) have "e \<in> set hs"
    by auto
  then have "Inr e \<in> set (map (commit_line fromiso) ?ls)" unfolding hs by simp
  then obtain l where l: "l \<in> set ?ls" and cl: "commit_line fromiso l = Inr e" by auto
  from commit_line_fields [OF cl] l ex r show ?thesis by blast
qed

theorem commit_date_from_date_and_time_witness:
  "\<exists>out err fs l h d t rest.
      exec (scripted demo_answer) w0 (git_log_cmd ''main'', Some ''/repo'', 300)
        = (Completed 0 out err, fs)
    \<and> l \<in> set (splitlines (strip out))
    \<and> split l = h # d # t # rest
    \<and> ehash (demo_history ! 2) = h
    \<and> emonth (demo_history ! 2) = take 7 d
    \<and> fromisoformat (d @ ''T'' @ t) = Inr (edate (demo_history ! 2))"
proof -
  have 1: "fst (get_monthly_commits fromisoformat (scripted demo_answer) w0 ''/repo'' ''main'')
             = Inr [demo_history ! 1, demo_history ! 2]"
    by (simp add: scripted_commits [where f = demo_answer, OF demo_answers(1)])
  have 2: "demo_history ! 2 \<in> set [demo_history ! 1, demo_history ! 2]"
    by simp
  from commit_date_from_date_and_time [OF 1 2] show ?thesis .
qed

text \<open>
  The claim as stated fails: two histories whose single commit differs only in the offset
  of its time zone give the same entry, and the stored date carries no time zone.
\<close>

theorem commit_date_offset_counterexample:
  "fst (get_monthly_commits fromisoformat
          (scripted (completes 0 ''a1 2024-01-05 10:00:00 +0100'' [])) w0 ''/repo'' ''main'')
     = Inr [\<lparr>ehash = ''a1'',
              edate = \<lparr>dt_year = 2024, dt_month = 1, dt_day = 5, dt_hour = 10, dt_minute = 0,
                       dt_second = 0, tzinfo = None\<rparr>,
              emonth = ''2024-01''\<rparr>]
   \<and> fst (get_monthly_commits fromisoformat
          (scripted (completes 0 ''a1 2024-01-05 10:00:00 -0500'' [])) w0 ''/repo'' ''main'')
     = Inr [\<lparr>ehash = ''a1'',
              edate = \<lparr>dt_year = 2024, dt_month = 1, dt_day = 5, dt_hour = 10, dt_minute = 0,
                       dt_second = 0, tzinfo = None\<rparr>,
              emonth = ''2024-01''\<rparr>]"
  by (simp add: get_monthly_commits_def run_def scripted_run completes_def single_line
      commit_line_def demo_split demo_iso)

text \<open>
  C7 (amended). When \<^verbatim>\<open>git log\<close> exits with a code other than 0, \<^verbatim>\<open>get_monthly_commits\<close> raises a
  \<open>RuntimeError\<close> carrying the standard error, \<^verbatim>\<open>collect_snapshots\<close> ends with the same
  error and no list of snapshots, and the only call made is the one to \<^verbatim>\<open>git log\<close>. When
  \<^verbatim>\<open>git log\<close> exits with code 0 and prints no commit, both functions return the empty list
  and raise nothing.
\<close>

theorem history_failure_is_fatal:
  "(exec E w (git_log_cmd branch, Some repo_path, 300) = (Completed returncode out err, fs)
      \<and> returncode \<noteq> 0 \<longrightarrow>
      get_monthly_commits fromiso E w repo_path branch =
        (Inl (RuntimeError (''git log failed: '' @ err)),
         w\<lparr>files := fs, calls := calls w @ [(git_log_cmd branch, Some repo_path, 300)]\<rparr>)
    \<and> collect_snapshots fromiso toint E w repo_path branch subdirs on_progress =
        (Inl (RuntimeError (''git log failed: '' @ err)),
         w\<lparr>files := fs, calls := calls w @ [(git_log_cmd branch, Some repo_path, 300)]\<rparr>))
   \<and> (exec E' w (git_log_cmd branch, Some repo_path, 300) = (Completed 0 out' err', fs')
      \<and> strip out' = [] \<longrightarrow>
      get_monthly_commits fromiso E' w repo_path branch =
        (Inr [], w\<lparr>files := fs', calls := calls w @ [(git_log_cmd branch, Some repo_path, 300)]\<rparr>)
    \<and> collect_snapshots fromiso toint E' w repo_path branch subdirs on_progress =
        (Inr [], w\<lparr>files := fs', calls := calls w @ [(git_log_cmd branch, Some repo_path, 300)]\<rparr>))"
  by (simp add: collect_snapshots_def get_monthly_commits_def run_def subprocess_run_def
      splitlines_def)

theorem history_failure_is_fatal_witness:
  "collect_snapshots fromisoformat int_of_str
      (scripted (completes 128 [] ''fatal: bad revision'')) w0 ''/repo'' ''nosuch''
      (Some [''apps/web'']) True
     = (Inl (RuntimeError ''git log failed: fatal: bad revision''),
        w0\<lparr>calls := [(git_log_cmd ''nosuch'', Some ''/repo'', 300)]\<rparr>)
   \<and> collect_snapshots fromisoformat int_of_str
      (scripted (completes 0 [] [])) w0 ''/repo'' ''nosuch'' (Some [''apps/web'']) True
     = (Inr [], w0\<lparr>calls := [(git_log_cmd ''nosuch'', Some ''/repo'', 300)]\<rparr>)"
proof -
  have 1: "exec (scripted (completes 128 [] ''fatal: bad revision'')) w0
             (git_log_cmd ''nosuch'', Some ''/repo'', 300)
             = (Completed 128 [] ''fatal: bad revision'', {}) \<and> (128::int) \<noteq> 0"
    by (simp add: scripted_def completes_def w0_def)
  have 2: "exec (scripted (completes 0 [] [])) w0 (git_log_cmd ''nosuch'', Some ''/repo'', 300)
             = (Completed 0 [] [], {}) \<and> strip [] = []"
    by (simp add: scripted_def completes_def w0_def demo_present)
  from 1 2
    history_failure_is_fatal [of "scripted (completes 128 [] ''fatal: bad revision'')" w0
      "''nosuch''" "''/repo''" 128 "[]" "''fatal: bad revision''" "{}" fromisoformat int_of_str
      "Some [''apps/web'']" True "scripted (completes 0 [] [])" "[]" "[]" "{}"]
  show ?thesis by (simp add: w0_def)
qed

text \<open>
  The claim as stated fails: on a branch that has no commit yet, \<^verbatim>\<open>git log\<close> exits with
  code 128, and both functions end with \<open>RuntimeError\<close> where the claim has an empty
  sequence and no error.
\<close>

theorem zero_commit_branch_counterexample:
  "get_monthly_commits fromisoformat (scripted (completes 128 [] no_commits_msg)) w0
      ''/repo'' ''main''
     = (Inl (RuntimeError (''git log failed: '' @ no_commits_msg)),
        w0\<lparr>calls := [(git_log_cmd ''main'', Some ''/repo'', 300)]\<rparr>)
   \<and> collect_snapshots fromisoformat int_of_str (scripted (completes 128 [] no_commits_msg)) w0
      ''/repo'' ''main'' None False
     = (Inl (RuntimeError (''git log failed: '' @ no_commits_msg)),
        w0\<lparr>calls := [(git_log_cmd ''main'', Some ''/repo'', 300)]\<rparr>)"
  by (simp add: collect_snapshots_def get_monthly_commits_def run_def scripted_run completes_def)
     (simp add: w0_def)

section \<open>The counting adapter\<close>

lemma cloc_row_skip: "l \<noteq> [] \<Longrightarrow> \<not> is_data_line l \<Longrightarrow> cloc_row toint l = Inr None"
  by (cases l) (auto simp: cloc_row_def is_data_line_def Let_def)

lemma cloc_row_data:
  "is_data_line l \<Longrightarrow>
   cloc_row toint l =
     (case toint (split_on (CHR '','') l ! 4) of
        Inl e \<Rightarrow> Inl e
      | Inr code \<Rightarrow> Inr (Some (split_on (CHR '','') l ! 1, code)))"
  by (cases l) (auto simp: cloc_row_def is_data_line_def Let_def)

lemma cloc_loop_skips:
  "\<forall>l\<in>set ls. l \<noteq> [] \<Longrightarrow>
   cloc_loop toint ls acc = cloc_loop toint (filter is_data_line ls) acc"
proof (induction ls arbitrary: acc)
  case Nil
  then show ?case by simp
next
  case (Cons l ls)
  obtain tot bl where acc: "acc = (tot, bl)" by (cases acc)
  from Cons.prems have l: "l \<noteq> []" and rest: "\<forall>l\<in>set ls. l \<noteq> []" by simp_all
  show ?case
  proof (cases "is_data_line l")
    case True
    then show ?thesis using Cons.IH [OF rest]
      by (simp add: acc split: sum.split option.split)
  next
    case False
    then show ?thesis using Cons.IH [OF rest] cloc_row_skip [OF l False]
      by (simp add: acc)
  qed
qed

lemma cloc_loop_rows:
  "cloc_loop toint ls acc = Inr res \<Longrightarrow> res = fold row_step (data_rows toint ls) acc"
proof (induction ls arbitrary: acc)
  case Nil
  then show ?case by (simp add: data_rows_def)
next
  case (Cons l ls)
  obtain tot bl where acc: "acc = (tot, bl)" by (cases acc)
  show ?case
  proof (cases "cloc_row toint l")
    case (Inl e)
    with Cons.prems show ?thesis by (simp add: acc)
  next
    case (Inr r)
    show ?thesis
    proof (cases r)
      case None
      with Inr Cons.prems have "cloc_loop toint ls acc = Inr res" by (simp add: acc)
      from Cons.IH [OF this] show ?thesis using Inr None by (simp add: data_rows_def)
    next
      case (Some row)
      obtain lang code where row: "row = (lang, code)" by (cases row)
      from Inr Some row Cons.prems
      have "cloc_loop toint ls (row_step row acc) = Inr res"
        by (simp add: acc split: if_splits)
      from Cons.IH [OF this] show ?thesis using Inr Some by (simp add: data_rows_def)
    qed
  qed
qed

lemma cloc_loop_total:
  "\<forall>l\<in>set ls. l \<noteq> [] \<and> (is_data_line l \<longrightarrow> (\<exists>n. toint (split_on (CHR '','') l ! 4) = Inr n)) \<Longrightarrow>
   \<exists>res. cloc_loop toint ls acc = Inr res"
proof (induction ls arbitrary: acc)
  case Nil
  then show ?case by simp
next
  case (Cons l ls)
  obtain tot bl where acc: "acc = (tot, bl)" by (cases acc)
  from Cons.prems have l: "l \<noteq> []"
    and conv: "is_data_line l \<longrightarrow> (\<exists>n. toint (split_on (CHR '','') l ! 4) = Inr n)"
    and rest: "\<forall>l\<in>set ls. l \<noteq> [] \<and>
                 (is_data_line l \<longrightarrow> (\<exists>n. toint (split_on (CHR '','') l ! 4) = Inr n))"
    by simp_all
  show ?case
  proof (cases "is_data_line l")
    case True
    with conv obtain n where n: "toint (split_on (CHR '','') l ! 4) = Inr n" by blast
    show ?thesis using Cons.IH [OF rest] by (simp add: acc cloc_row_data [OF True] n)
  next
    case False
    show ?thesis using Cons.IH [OF rest] by (simp add: acc cloc_row_skip [OF l False])
  qed
qed

lemma fold_row_step_total:
  "fst (fold row_step rows acc) =
     (if sum_rows rows = [] then fst acc else snd (last (sum_rows rows)))"
proof (induction rows rule: rev_induct)
  case Nil
  then show ?case by (simp add: sum_rows_def)
next
  case (snoc r rows)
  obtain lang code where r: "r = (lang, code)" by (cases r)
  obtain t b where f: "fold row_step rows acc = (t, b)" by (cases "fold row_step rows acc")
  from snoc show ?case by (simp add: r f sum_rows_def)
qed

lemma fold_row_step_keys:
  "fst ` set (snd (fold row_step rows acc)) = fst ` set (lang_rows rows) \<union> fst ` set (snd acc)"
proof (induction rows rule: rev_induct)
  case Nil
  then show ?case by (simp add: lang_rows_def)
next
  case (snoc r rows)
  obtain lang code where r: "r = (lang, code)" by (cases r)
  obtain t b where f: "fold row_step rows acc = (t, b)" by (cases "fold row_step rows acc")
  from snoc show ?case by (auto simp: r f lang_rows_def dom_update)
qed

lemma update_fresh: "k \<notin> fst ` set al \<Longrightarrow> AList.update k v al = al @ [(k, v)]"
  by (induction al) auto

lemma fold_row_step_distinct:
  "distinct (map fst (lang_rows rows)) \<Longrightarrow>
   snd (fold row_step rows (t0, [])) = lang_rows rows"
proof (induction rows rule: rev_induct)
  case Nil
  then show ?case by (simp add: lang_rows_def)
next
  case (snoc r rows)
  obtain lang code where r: "r = (lang, code)" by (cases r)
  obtain t b where f: "fold row_step rows (t0, []) = (t, b)"
    by (cases "fold row_step rows (t0, [])")
  from snoc.prems have d: "distinct (map fst (lang_rows rows))"
    by (simp add: lang_rows_def)
  from snoc.IH [OF d] f have b: "b = lang_rows rows" by simp
  show ?case
  proof (cases "lang = ''SUM''")
    case True
    then show ?thesis by (simp add: r f b lang_rows_def)
  next
    case False
    with snoc.prems have "lang \<notin> fst ` set (lang_rows rows)"
      by (auto simp: r lang_rows_def)
    then show ?thesis using False by (simp add: r f b update_fresh) (simp add: lang_rows_def r)
  qed
qed

text \<open>
  C6 (amended). Let no line of the report be empty and let the fifth field of every data
  line be accepted by \<^verbatim>\<open>int\<close>. Then the parse returns a pair; the lines that start with
  \<^verbatim>\<open>files\<close>, that start with a character other than a digit, or that have fewer than five
  fields are skipped, that is, the parse of the data lines alone returns the same pair; the
  total is the code count of the last \<^verbatim>\<open>SUM\<close> row, or 0 when there is none; and the keys
  of the mapping are the languages of the other data rows, never \<^verbatim>\<open>SUM\<close>.
\<close>

theorem parse_cloc_rows:
  assumes "\<forall>l\<in>set (splitlines (strip out)).
             l \<noteq> [] \<and> (is_data_line l \<longrightarrow> (\<exists>n. toint (split_on (CHR '','') l ! 4) = Inr n))"
  shows "\<exists>tot by_lang.
           parse_cloc toint out = Inr (tot, by_lang)
         \<and> cloc_loop toint (filter is_data_line (splitlines (strip out))) (0, []) = Inr (tot, by_lang)
         \<and> tot = (if sum_rows (data_rows toint (splitlines (strip out))) = [] then 0
                  else snd (last (sum_rows (data_rows toint (splitlines (strip out))))))
         \<and> ''SUM'' \<notin> fst ` set by_lang
         \<and> fst ` set by_lang = fst ` set (lang_rows (data_rows toint (splitlines (strip out))))"
proof -
  let ?ls = "splitlines (strip out)"
  from cloc_loop_total [OF assms] obtain res where res: "cloc_loop toint ?ls (0, []) = Inr res"
    by blast
  obtain tot by_lang where tb: "res = (tot, by_lang)" by (cases res)
  from assms have ne: "\<forall>l\<in>set ?ls. l \<noteq> []" by blast
  have skip: "cloc_loop toint (filter is_data_line ?ls) (0, []) = Inr (tot, by_lang)"
    using cloc_loop_skips [OF ne, of toint "(0, [])"] res tb by simp
  have fold: "(tot, by_lang) = fold row_step (data_rows toint ?ls) (0, [])"
    using cloc_loop_rows [OF res] tb by simp
  have t: "tot = (if sum_rows (data_rows toint ?ls) = [] then 0
                  else snd (last (sum_rows (data_rows toint ?ls))))"
    using fold_row_step_total [of "data_rows toint ?ls" "(0, [])"] fold [symmetric] by simp
  have k: "fst ` set by_lang = fst ` set (lang_rows (data_rows toint ?ls))"
    using fold_row_step_keys [of "data_rows toint ?ls" "(0, [])"] fold [symmetric] by simp
  have s: "''SUM'' \<notin> fst ` set by_lang"
    unfolding k by (auto simp: lang_rows_def)
  from res tb skip t k s show ?thesis by (simp add: parse_cloc_def)
qed

theorem parse_cloc_rows_witness:
  "\<exists>tot by_lang.
      parse_cloc int_of_str demo_csv = Inr (tot, by_lang)
    \<and> cloc_loop int_of_str [''2,Python,10,5,100'', ''1,Markdown,3,0,20'', ''3,SUM,13,5,120''] (0, [])
        = Inr (tot, by_lang)
    \<and> tot = 120
    \<and> ''SUM'' \<notin> fst ` set by_lang
    \<and> fst ` set by_lang = {''Python'', ''Markdown''}"
proof -
  have h: "\<forall>l\<in>set (splitlines (strip demo_csv)).
             l \<noteq> [] \<and> (is_data_line l \<longrightarrow> (\<exists>n. int_of_str (split_on (CHR '','') l ! 4) = Inr n))"
    unfolding demo_csv_lines by (simp add: is_data_line_def string_eval int_eval)
  have f: "filter is_data_line (splitlines (strip demo_csv)) =
             [''2,Python,10,5,100'', ''1,Markdown,3,0,20'', ''3,SUM,13,5,120'']"
    unfolding demo_csv_lines by (simp add: is_data_line_def string_eval)
  show ?thesis
    using parse_cloc_rows [OF h] unfolding f demo_csv_rows
    by (simp add: sum_rows_def lang_rows_def insert_commute)
qed

text \<open>
  The claim as stated fails: a data row whose fifth field is not a number aborts the parse
  with \<open>ValueError\<close>, and an empty line between two rows aborts it with \<open>IndexError\<close>.
\<close>

theorem parse_cloc_aborts_counterexample:
  "parse_cloc int_of_str (''1,Python,0,0,abc'' @ nl) = Inl ValueError
   \<and> parse_cloc int_of_str (''2,Python,10,5,100'' @ nl @ nl @ ''3,SUM,13,5,100'' @ nl)
       = Inl IndexError"
  by (simp add: parse_cloc_def cloc_row_def string_eval int_eval)

text \<open>
  C3 (amended). For every report the parser accepts, the total equals the sum of the
  values of the mapping whenever the report is consistent: no language is listed twice,
  and the code count of the last \<^verbatim>\<open>SUM\<close> row (0 when there is none) is the sum of the code
  counts of the other data rows.
\<close>

theorem parse_cloc_total_is_sum:
  assumes "parse_cloc toint out = Inr (tot, by_lang)"
    and "rows = data_rows toint (splitlines (strip out))"
    and "distinct (map fst (lang_rows rows))"
    and "(if sum_rows rows = [] then 0 else snd (last (sum_rows rows)))
           = sum_list (map snd (lang_rows rows))"
  shows "tot = sum_list (map snd by_lang)"
proof -
  from assms(1) have "(tot, by_lang) = fold row_step rows (0, [])"
    unfolding parse_cloc_def assms(2) by (rule cloc_loop_rows)
  then have f: "fold row_step rows (0, []) = (tot, by_lang)" by simp
  have "tot = (if sum_rows rows = [] then 0 else snd (last (sum_rows rows)))"
    using fold_row_step_total [of rows "(0, [])"] f by simp
  moreover have "by_lang = lang_rows rows"
    using fold_row_step_distinct [OF assms(3), of 0] f by simp
  ultimately show ?thesis using assms(4) by simp
qed

theorem parse_cloc_total_is_sum_witness:
  "parse_cloc int_of_str demo_csv = Inr (120, [(''Python'', 100), (''Markdown'', 20)])
   \<and> (120::int) = sum_list (map snd [(''Python'', 100::int), (''Markdown'', 20)])"
proof -
  have d: "distinct (map fst (lang_rows [(''Python'', 100::int), (''Markdown'', 20), (''SUM'', 120)]))"
    by (simp add: lang_rows_def)
  have c: "(if sum_rows [(''Python'', 100::int), (''Markdown'', 20), (''SUM'', 120)] = [] then 0
            else snd (last (sum_rows [(''Python'', 100), (''Markdown'', 20), (''SUM'', 120)])))
           = sum_list (map snd (lang_rows [(''Python'', 100), (''Markdown'', 20), (''SUM'', 120)]))"
    by (simp add: lang_rows_def sum_rows_def)
  from parse_cloc_total_is_sum [OF demo_parse demo_csv_rows [symmetric] d c] demo_parse
  show ?thesis by simp
qed

text \<open>
  The claim as stated fails: the parser takes the total from the \<^verbatim>\<open>SUM\<close> row as it
  stands, and leaves it at 0 when the report has no such row.
\<close>

theorem parse_cloc_total_counterexample:
  "parse_cloc int_of_str (''1,Python,0,0,5'' @ nl @ ''1,SUM,0,0,7'' @ nl) = Inr (7, [(''Python'', 5)])
   \<and> 7 \<noteq> sum_list (map snd [(''Python'', 5::int)])
   \<and> parse_cloc int_of_str (''2,Python,10,5,100'' @ nl) = Inr (0, [(''Python'', 100)])
   \<and> 0 \<noteq> sum_list (map snd [(''Python'', 100::int)])"
  by (simp add: parse_cloc_def cloc_row_def string_eval int_eval)

text \<open>
  C2 (amended). For every commit and optional subpath: when \<^verbatim>\<open>git archive\<close> runs to its
  end with an exit code other than 0, or it exits with 0 and \<^verbatim>\<open>cloc\<close> runs to its end with
  an exit code other than 0, \<^verbatim>\<open>_cloc_from_archive\<close> returns \<^verbatim>\<open>(0, {})\<close> and raises nothing.
\<close>

theorem cloc_from_archive_nonzero_exit:
  assumes "subprocess_run E (w\<lparr>files := insert (mktemp E w) (files w)\<rparr>)
             (git_archive_cmd commit subpath, Some repo_path, 120)
             = (Completed returncode out err, w1)"
    and "returncode \<noteq> 0
         \<or> (\<exists>returncode2 out2 err2 w2.
               subprocess_run E w1 (cloc_cmd (mktemp E w), None, 300)
                 = (Completed returncode2 out2 err2, w2) \<and> returncode2 \<noteq> 0)"
  shows "fst (cloc_from_archive toint E w repo_path commit subpath) = Inr (0, [])"
  using assms by (auto simp: cloc_from_archive_def cloc_try_def Let_def)

theorem cloc_from_archive_nonzero_exit_witness:
  "fst (cloc_from_archive int_of_str (scripted (completes 128 [] ''fatal: not a tree object''))
          w0 ''/repo'' ''c3'' (Some ''apps/none/'')) = Inr (0, [])
   \<and> fst (cloc_from_archive int_of_str (scripted cloc_fails) w0 ''/repo'' ''c3'' None) = Inr (0, [])"
proof -
  let ?E = "scripted (completes 128 [] ''fatal: not a tree object'')"
  let ?F = "scripted cloc_fails"
  let ?w1 = "w0\<lparr>files := {''/tmp/tmpk2.tar''},
                 calls := [(git_archive_cmd ''c3'' (Some ''apps/none/''), Some ''/repo'', 120)]\<rparr>"
  let ?v1 = "w0\<lparr>files := {''/tmp/tmpk2.tar''},
                 calls := [(git_archive_cmd ''c3'' None, Some ''/repo'', 120)]\<rparr>"
  let ?v2 = "w0\<lparr>files := {''/tmp/tmpk2.tar''},
                 calls := [(git_archive_cmd ''c3'' None, Some ''/repo'', 120),
                           (cloc_cmd ''/tmp/tmpk2.tar'', None, 300)]\<rparr>"
  have a: "subprocess_run ?E (w0\<lparr>files := insert (mktemp ?E w0) (files w0)\<rparr>)
             (git_archive_cmd ''c3'' (Some ''apps/none/''), Some ''/repo'', 120)
             = (Completed 128 [] ''fatal: not a tree object'', ?w1)"
    by (simp add: scripted_run scripted_mktemp completes_def w0_def)
  have b: "(128::int) \<noteq> 0
         \<or> (\<exists>returncode2 out2 err2 w2.
               subprocess_run ?E ?w1 (cloc_cmd (mktemp ?E w0), None, 300)
                 = (Completed returncode2 out2 err2, w2) \<and> returncode2 \<noteq> 0)"
    by simp
  have c: "subprocess_run ?F (w0\<lparr>files := insert (mktemp ?F w0) (files w0)\<rparr>)
             (git_archive_cmd ''c3'' None, Some ''/repo'', 120) = (Completed 0 [] [], ?v1)"
    by (simp add: scripted_run scripted_mktemp cloc_fails_def git_archive_cmd_def w0_def)
  have "subprocess_run ?F ?v1 (cloc_cmd (mktemp ?F w0), None, 300)
          = (Completed 1 [] ''cloc: error'', ?v2) \<and> (1::int) \<noteq> 0"
    by (simp add: scripted_run scripted_mktemp cloc_fails_def cloc_cmd_def w0_def)
  then have d: "(0::int) \<noteq> 0
         \<or> (\<exists>returncode2 out2 err2 w2.
               subprocess_run ?F ?v1 (cloc_cmd (mktemp ?F w0), None, 300)
                 = (Completed returncode2 out2 err2, w2) \<and> returncode2 \<noteq> 0)"
    by blast
  from cloc_from_archive_nonzero_exit [OF a b] cloc_from_archive_nonzero_exit [OF c d]
  show ?thesis by simp
qed

text \<open>
  The claim as stated fails: when \<^verbatim>\<open>git archive\<close> times out, \<^verbatim>\<open>subprocess.run\<close> raises
  \<open>TimeoutExpired\<close>, which leaves \<^verbatim>\<open>_cloc_from_archive\<close> as an exception.
\<close>

theorem cloc_from_archive_timeout_counterexample:
  "fst (cloc_from_archive int_of_str (scripted (raises TimeoutExpired)) w0 ''/repo'' ''c3'' None)
     = Inl TimeoutExpired"
  by (simp add: scripted_cloc_raised [where f = "raises TimeoutExpired"] raises_def)

lemma subprocess_run_files:
  assumes "\<forall>v c. snd (exec E v c) = files v"
  shows "files (snd (subprocess_run E w c)) = files w"
proof -
  obtain r fs where e: "exec E w c = (r, fs)" by (cases "exec E w c")
  from assms have "snd (exec E w c) = files w" by (rule allE) (erule allE)
  with e show ?thesis by (simp add: subprocess_run_def)
qed

lemma cloc_try_files:
  assumes "\<forall>v c. snd (exec E v c) = files v"
  shows "files (snd (cloc_try toint E w repo_path commit subpath tmp)) = insert tmp (files w)"
proof -
  let ?w = "w\<lparr>files := insert tmp (files w)\<rparr>"
  let ?a = "(git_archive_cmd commit subpath, Some repo_path, 120::nat)"
  let ?c = "(cloc_cmd tmp, None :: string option, 300::nat)"
  obtain r1 w1 where s1: "subprocess_run E ?w ?a = (r1, w1)"
    by (cases "subprocess_run E ?w ?a")
  from subprocess_run_files [OF assms, of ?w ?a] s1
  have f1: "files w1 = insert tmp (files w)" by simp
  obtain r2 w2 where s2: "subprocess_run E w1 ?c = (r2, w2)"
    by (cases "subprocess_run E w1 ?c")
  from subprocess_run_files [OF assms, of w1 ?c] s2 f1
  have f2: "files w2 = insert tmp (files w)" by simp
  show ?thesis
  proof (cases r1)
    case (Raised e)
    then show ?thesis by (simp add: cloc_try_def s1 f1)
  next
    case (Completed rc out err)
    show ?thesis
    proof (cases r2)
      case (Raised e)
      then show ?thesis by (simp add: cloc_try_def s1 s2 Completed f1 f2)
    next
      case c2: (Completed rc2 out2 err2)
      then show ?thesis by (simp add: cloc_try_def s1 s2 Completed f1 f2)
    qed
  qed
qed

text \<open>
  C8. Whatever the two external programs answer and whatever they do to the files,
  whether the invocation returns a count, returns \<^verbatim>\<open>(0, {})\<close> or ends with an exception,
  the temporary file of the invocation does not exist when it ends. When the programs
  leave the set of files as it is, the files after the invocation are the files before
  it without the temporary file: the invocation leaves nothing behind and removes
  nothing else.
\<close>

theorem cloc_from_archive_removes_tmp:
  "mktemp E w \<notin> files (snd (cloc_from_archive toint E w repo_path commit subpath))
   \<and> ((\<forall>v c. snd (exec E v c) = files v) \<longrightarrow>
        files (snd (cloc_from_archive toint E w repo_path commit subpath))
          = files w - {mktemp E w})"
proof (intro conjI impI)
  show "mktemp E w \<notin> files (snd (cloc_from_archive toint E w repo_path commit subpath))"
    by (simp add: cloc_from_archive_def Let_def cloc_finally_def split: prod.split)
next
  assume a: "\<forall>v c. snd (exec E v c) = files v"
  let ?w = "w\<lparr>files := insert (mktemp E w) (files w)\<rparr>"
  obtain r w' where t: "cloc_try toint E ?w repo_path commit subpath (mktemp E w) = (r, w')"
    by (cases "cloc_try toint E ?w repo_path commit subpath (mktemp E w)")
  from cloc_try_files [OF a, of toint ?w repo_path commit subpath "mktemp E w"] t
  have "files w' = insert (mktemp E w) (files w)" by simp
  then show "files (snd (cloc_from_archive toint E w repo_path commit subpath))
               = files w - {mktemp E w}"
    by (simp add: cloc_from_archive_def Let_def t cloc_finally_def)
qed

text \<open>An invocation that ends with \<open>TimeoutExpired\<close>, and one that returns a count.\<close>

theorem cloc_from_archive_removes_tmp_witness:
  "''/tmp/tmpk2.tar'' \<notin>
     files (snd (cloc_from_archive int_of_str (scripted (raises TimeoutExpired)) w0
                   ''/repo'' ''c3'' None))
   \<and> files (snd (cloc_from_archive int_of_str (scripted (raises TimeoutExpired)) w0
                   ''/repo'' ''c3'' None)) = {}
   \<and> files (snd (cloc_from_archive int_of_str (scripted demo_answer) w0 ''/repo'' ''c3'' None))
       = {}"
proof -
  have s: "\<forall>v c. snd (exec (scripted f) v c) = files v" for f
    by (simp add: scripted_def)
  from cloc_from_archive_removes_tmp [of "scripted (raises TimeoutExpired)" w0 int_of_str
      "''/repo''" "''c3''" None]
    cloc_from_archive_removes_tmp [of "scripted demo_answer" w0 int_of_str
      "''/repo''" "''c3''" None] s
  show ?thesis by (simp add: scripted_mktemp w0_def)
qed

section \<open>Snapshots\<close>

lemma cloc_try_calls:
  "\<exists>more. calls (snd (cloc_try toint E w repo_path commit subpath tmp)) =
       calls w @ (git_archive_cmd commit subpath, Some repo_path, 120) # more
     \<and> (more = [] \<or> more = [(cloc_cmd tmp, None, 300)])"
  by (auto simp: cloc_try_def subprocess_run_def split: prod.splits proc_outcome.splits)

lemma cloc_from_archive_calls:
  "\<exists>more. calls (snd (cloc_from_archive toint E w repo_path commit subpath)) =
       calls w @ (git_archive_cmd commit subpath, Some repo_path, 120) # more
     \<and> (more = [] \<or> more = [(cloc_cmd (mktemp E w), None, 300)])"
proof -
  let ?w = "w\<lparr>files := insert (mktemp E w) (files w)\<rparr>"
  from cloc_try_calls [of toint E ?w repo_path commit subpath "mktemp E w"]
  show ?thesis
    by (auto simp: cloc_from_archive_def Let_def cloc_finally_def split: prod.splits)
qed

lemma has_subpath_calls:
  "has_subpath E w repo_path commit sd = (r, w1) \<Longrightarrow>
   calls w1 = calls w @ [(ls_tree_cmd commit sd, Some repo_path, 300)]"
  by (auto simp: has_subpath_def run_def subprocess_run_def split: prod.splits proc_outcome.splits)

text \<open>
  C5 (amended). For a commit and a tracked subdirectory: when \<^verbatim>\<open>_has_subpath\<close> reports the
  path absent, the loop body records \<^verbatim>\<open>(0, {})\<close> for it, raises nothing, and the only call
  made is the one to \<^verbatim>\<open>git ls-tree\<close>; when it reports the path present,
  \<^verbatim>\<open>_cloc_from_archive\<close> is invoked for that path (the next call is \<^verbatim>\<open>git archive\<close> of the
  commit restricted to the path, followed at most by \<^verbatim>\<open>cloc\<close> on the temporary file), and
  what it returns is recorded under the path; the loop body raises if and only if that
  invocation raises.
\<close>

theorem subdir_step_cases:
  "(has_subpath E w repo_path commit sd = (Inr False, w1) \<longrightarrow>
      subdir_step toint E w repo_path commit sd acc =
        (Inr (AList.update sd 0 (fst acc), AList.update sd [] (snd acc)), w1)
    \<and> calls w1 = calls w @ [(ls_tree_cmd commit sd, Some repo_path, 300)])
   \<and> (has_subpath E w repo_path commit sd = (Inr True, w1) \<longrightarrow>
      (\<exists>r w2 more.
          cloc_from_archive toint E w1 repo_path commit (Some sd) = (r, w2)
        \<and> subdir_step toint E w repo_path commit sd acc =
            (case r of
               Inl e \<Rightarrow> Inl e
             | Inr (tot, by_lang) \<Rightarrow>
                 Inr (AList.update sd tot (fst acc), AList.update sd by_lang (snd acc)), w2)
        \<and> calls w2 =
            calls w @ (ls_tree_cmd commit sd, Some repo_path, 300)
              # (git_archive_cmd commit (Some sd), Some repo_path, 120) # more
        \<and> (more = [] \<or> more = [(cloc_cmd (mktemp E w1), None, 300)])))"
proof (intro conjI impI)
  assume a: "has_subpath E w repo_path commit sd = (Inr False, w1)"
  then show "subdir_step toint E w repo_path commit sd acc =
        (Inr (AList.update sd 0 (fst acc), AList.update sd [] (snd acc)), w1)"
    by (simp add: subdir_step_def)
  from has_subpath_calls [OF a]
  show "calls w1 = calls w @ [(ls_tree_cmd commit sd, Some repo_path, 300)]" .
next
  assume a: "has_subpath E w repo_path commit sd = (Inr True, w1)"
  obtain r w2 where c: "cloc_from_archive toint E w1 repo_path commit (Some sd) = (r, w2)"
    by (cases "cloc_from_archive toint E w1 repo_path commit (Some sd)")
  from cloc_from_archive_calls [of toint E w1 repo_path commit "Some sd"] c
  obtain more where
    m: "calls w2 = calls w1 @ (git_archive_cmd commit (Some sd), Some repo_path, 120) # more"
    and m2: "more = [] \<or> more = [(cloc_cmd (mktemp E w1), None, 300)]"
    by auto
  have s: "subdir_step toint E w repo_path commit sd acc =
            (case r of
               Inl e \<Rightarrow> Inl e
             | Inr (tot, by_lang) \<Rightarrow>
                 Inr (AList.update sd tot (fst acc), AList.update sd by_lang (snd acc)), w2)"
    using a c by (simp add: subdir_step_def split: sum.split prod.split)
  from m has_subpath_calls [OF a]
  have "calls w2 = calls w @ (ls_tree_cmd commit sd, Some repo_path, 300)
              # (git_archive_cmd commit (Some sd), Some repo_path, 120) # more"
    by simp
  with c s m2 show "\<exists>r w2 more.
          cloc_from_archive toint E w1 repo_path commit (Some sd) = (r, w2)
        \<and> subdir_step toint E w repo_path commit sd acc =
            (case r of
               Inl e \<Rightarrow> Inl e
             | Inr (tot, by_lang) \<Rightarrow>
                 Inr (AList.update sd tot (fst acc), AList.update sd by_lang (snd acc)), w2)
        \<and> calls w2 =
            calls w @ (ls_tree_cmd commit sd, Some repo_path, 300)
              # (git_archive_cmd commit (Some sd), Some repo_path, 120) # more
        \<and> (more = [] \<or> more = [(cloc_cmd (mktemp E w1), None, 300)])"
    by blast
qed

text \<open>
  The scenario: at the January commit the path is absent and only \<^verbatim>\<open>git ls-tree\<close> runs; at
  the February commit it is present and the archive of the path is counted.
\<close>

theorem subdir_step_cases_witness:
  "subdir_step int_of_str (scripted demo_answer) w0 ''/repo'' ''b2'' ''apps/web/'' ([], [])
     = (Inr ([(''apps/web/'', 0)], [(''apps/web/'', [])]),
        w0\<lparr>calls := [(ls_tree_cmd ''b2'' ''apps/web/'', Some ''/repo'', 300)]\<rparr>)
   \<and> subdir_step int_of_str (scripted demo_answer) w0 ''/repo'' ''c3'' ''apps/web/'' ([], [])
     = (Inr ([(''apps/web/'', 120)], [(''apps/web/'', [(''Python'', 100), (''Markdown'', 20)])]),
        w0\<lparr>calls := [(ls_tree_cmd ''c3'' ''apps/web/'', Some ''/repo'', 300),
                      (git_archive_cmd ''c3'' (Some ''apps/web/''), Some ''/repo'', 120),
                      (cloc_cmd ''/tmp/tmpk2.tar'', None, 300)]\<rparr>)"
proof -
  let ?E = "scripted demo_answer"
  let ?wb = "w0\<lparr>calls := [(ls_tree_cmd ''b2'' ''apps/web/'', Some ''/repo'', 300)]\<rparr>"
  let ?wc = "w0\<lparr>calls := [(ls_tree_cmd ''c3'' ''apps/web/'', Some ''/repo'', 300)]\<rparr>"
  have absent: "has_subpath ?E w0 ''/repo'' ''b2'' ''apps/web/'' = (Inr False, ?wb)"
    by (simp add: scripted_has_subpath [where f = demo_answer, OF demo_answers(4)] demo_present)
       (simp add: w0_def)
  have present: "has_subpath ?E w0 ''/repo'' ''c3'' ''apps/web/'' = (Inr True, ?wc)"
    by (simp add: scripted_has_subpath [where f = demo_answer, OF demo_answers(5)] demo_present)
       (simp add: w0_def)
  have count: "cloc_from_archive int_of_str ?E ?wc ''/repo'' ''c3'' (Some ''apps/web/'')
      = (Inr (120, [(''Python'', 100), (''Markdown'', 20)]),
         w0\<lparr>calls := [(ls_tree_cmd ''c3'' ''apps/web/'', Some ''/repo'', 300),
                       (git_archive_cmd ''c3'' (Some ''apps/web/''), Some ''/repo'', 120),
                       (cloc_cmd ''/tmp/tmpk2.tar'', None, 300)]\<rparr>)"
    by (simp add: scripted_cloc [where f = demo_answer, OF demo_answers(2) demo_answers(3)]
        demo_parse) (simp add: w0_def)
  from subdir_step_cases [of ?E w0 "''/repo''" "''b2''" "''apps/web/''" ?wb int_of_str "([], [])"]
    subdir_step_cases [of ?E w0 "''/repo''" "''c3''" "''apps/web/''" ?wc int_of_str "([], [])"]
    absent present count
  show ?thesis by auto
qed

lemma slow_run:
  "fst (collect_snapshots fromisoformat int_of_str (scripted slow_subdir) w0 ''/repo'' ''main''
          (Some [''apps/web'']) False) = Inl TimeoutExpired"
  unfolding collect_snapshots_def scripted_commits [where f = slow_subdir, OF slow_answers(1)]
  by (simp add: demo_history_def demo_normalize subdir_step_def
      scripted_cloc [where f = slow_subdir, OF slow_answers(2) slow_answers(4)]
      scripted_cloc_raised [where f = slow_subdir, OF slow_answers(3)]
      scripted_has_subpath [where f = slow_subdir, OF slow_answers(5)]
      scripted_has_subpath [where f = slow_subdir, OF slow_answers(6)]
      demo_present demo_parse)

text \<open>
  The claim as stated fails: in the scenario, with \<^verbatim>\<open>git archive\<close> of the subdirectory
  timing out, the path is present at the February commit and the whole run ends with
  \<open>TimeoutExpired\<close>.
\<close>

theorem subdir_present_timeout_counterexample:
  "has_subpath (scripted slow_subdir) w0 ''/repo'' ''c3'' ''apps/web/''
     = (Inr True, w0\<lparr>calls := [(ls_tree_cmd ''c3'' ''apps/web/'', Some ''/repo'', 300)]\<rparr>)
   \<and> fst (collect_snapshots fromisoformat int_of_str (scripted slow_subdir) w0 ''/repo'' ''main''
          (Some [''apps/web'']) False) = Inl TimeoutExpired"
  by (simp add: slow_run scripted_has_subpath [where f = slow_subdir, OF slow_answers(6)]
      demo_present) (simp add: w0_def)

lemma subdir_step_shape:
  "subdir_step toint E w repo_path commit sd acc = (Inr acc', w') \<Longrightarrow>
   \<exists>t b. acc' = (AList.update sd t (fst acc), AList.update sd b (snd acc))"
  by (auto simp: subdir_step_def split: prod.splits sum.splits if_splits)

lemma subdir_step_keys:
  assumes "subdir_step toint E w repo_path commit sd acc = (Inr acc', w')"
    and "map fst (fst acc) = map fst (snd acc)"
  shows "map fst (fst acc') = map fst (snd acc')
       \<and> fst ` set (fst acc') = insert sd (fst ` set (fst acc))"
proof -
  from subdir_step_shape [OF assms(1)] obtain t b where
    acc': "acc' = (AList.update sd t (fst acc), AList.update sd b (snd acc))" by blast
  have "map fst (fst acc') = map fst (snd acc')"
    using assms(2) by (simp add: acc' update_keys)
  moreover have "fst ` set (fst acc') = insert sd (fst ` set (fst acc))"
    by (simp add: acc' dom_update)
  ultimately show ?thesis by simp
qed

lemma subdir_loop_keys:
  "subdir_loop toint E w repo_path commit sds acc = (Inr acc', w') \<Longrightarrow>
   map fst (fst acc) = map fst (snd acc) \<Longrightarrow>
   map fst (fst acc') = map fst (snd acc')
     \<and> fst ` set (fst acc') = set sds \<union> fst ` set (fst acc)"
proof (induction sds arbitrary: w acc)
  case Nil
  then show ?case by simp
next
  case (Cons sd sds)
  from Cons.prems(1) obtain acc1 w1 where
    st: "subdir_step toint E w repo_path commit sd acc = (Inr acc1, w1)"
    and lp: "subdir_loop toint E w1 repo_path commit sds acc1 = (Inr acc', w')"
    by (auto split: prod.splits sum.splits)
  from subdir_step_keys [OF st Cons.prems(2)]
  have k1: "map fst (fst acc1) = map fst (snd acc1)"
    and k2: "fst ` set (fst acc1) = insert sd (fst ` set (fst acc))"
    by simp_all
  from Cons.IH [OF lp k1] k2 show ?case by auto
qed

lemma snapshot_loop_keys:
  "snapshot_loop toint E w repo_path sds on_progress n i ents snaps = (Inr res, w') \<Longrightarrow>
   \<forall>s\<in>set snaps. keys_agree sds s \<Longrightarrow> \<forall>s\<in>set res. keys_agree sds s"
proof (induction ents arbitrary: w i snaps)
  case Nil
  then show ?case by simp
next
  case (Cons ent ents)
  let ?w = "if on_progress then w\<lparr>notified := notified w @ [(i + 1, n, emonth ent)]\<rparr> else w"
  from Cons.prems(1) obtain tot by_lang w1 totals by_langs w2 where
    c: "cloc_from_archive toint E ?w repo_path (ehash ent) None = (Inr (tot, by_lang), w1)"
    and sl: "subdir_loop toint E w1 repo_path (ehash ent) sds ([], [])
               = (Inr (totals, by_langs), w2)"
    and rest: "snapshot_loop toint E w2 repo_path sds on_progress n (i + 1) ents
                 (snaps @
                  [\<lparr>month = emonth ent, commit_hash = ehash ent, commit_date = edate ent,
                    repo_total = tot, repo_by_lang = by_lang,
                    subdir_totals = totals, subdir_by_lang = by_langs\<rparr>]) = (Inr res, w')"
    by (auto split: prod.splits sum.splits)
  from subdir_loop_keys [OF sl]
  have "map fst totals = map fst by_langs \<and> fst ` set totals = set sds"
    by simp
  with Cons.prems(2) have "\<forall>s\<in>set (snaps @
                  [\<lparr>month = emonth ent, commit_hash = ehash ent, commit_date = edate ent,
                    repo_total = tot, repo_by_lang = by_lang,
                    subdir_totals = totals, subdir_by_lang = by_langs\<rparr>]). keys_agree sds s"
    by (auto simp: keys_agree_def)
  from Cons.IH [OF rest this] show ?case .
qed

lemma demo_run:
  "fst (collect_snapshots fromisoformat int_of_str (scripted demo_answer) w0 ''/repo'' ''main''
          (Some [''apps/web'']) True) = Inr demo_snapshots"
  unfolding collect_snapshots_def scripted_commits [where f = demo_answer, OF demo_answers(1)]
  by (simp add: demo_history_def demo_snapshots_def demo_normalize subdir_step_def
      scripted_cloc [where f = demo_answer, OF demo_answers(2) demo_answers(3)]
      scripted_has_subpath [where f = demo_answer, OF demo_answers(4)]
      scripted_has_subpath [where f = demo_answer, OF demo_answers(5)]
      demo_present demo_parse)

text \<open>
  C4. In every snapshot that \<^verbatim>\<open>collect_snapshots\<close> returns, the keys of
  \<^verbatim>\<open>subdir_totals\<close> are exactly the normalized tracked paths, and \<^verbatim>\<open>subdir_by_lang\<close> has
  the same keys, in the same order. A path that is absent at the commit, or whose count
  failed with an exit code, is a key of both.
\<close>

theorem subdir_keys_identical:
  assumes "fst (collect_snapshots fromiso toint E w repo_path branch subdirs on_progress) = Inr snaps"
    and "s \<in> set snaps"
  shows "fst ` set (subdir_totals s) =
           normalize_subdir ` set (case subdirs of None \<Rightarrow> [] | Some sds \<Rightarrow> sds)
       \<and> fst ` set (subdir_by_lang s) = fst ` set (subdir_totals s)
       \<and> map fst (subdir_by_lang s) = map fst (subdir_totals s)"
proof -
  let ?sds = "map normalize_subdir (case subdirs of None \<Rightarrow> [] | Some sds \<Rightarrow> sds)"
  from assms(1) obtain commits w1 w' where
    "snapshot_loop toint E w1 repo_path ?sds on_progress (length commits) 0 commits []
       = (Inr snaps, w')"
    by (cases "collect_snapshots fromiso toint E w repo_path branch subdirs on_progress")
       (auto simp: collect_snapshots_def split: prod.splits sum.splits)
  from snapshot_loop_keys [OF this] assms(2) have k: "keys_agree ?sds s" by simp
  then have "map fst (subdir_by_lang s) = map fst (subdir_totals s)"
    by (simp add: keys_agree_def)
  moreover from this have "fst ` set (subdir_by_lang s) = fst ` set (subdir_totals s)"
    by (metis list.set_map)
  moreover from k have "fst ` set (subdir_totals s) =
      normalize_subdir ` set (case subdirs of None \<Rightarrow> [] | Some sds \<Rightarrow> sds)"
    by (simp add: keys_agree_def)
  ultimately show ?thesis by simp
qed

text \<open>The January snapshot of the scenario, where the tracked path is absent.\<close>

theorem subdir_keys_identical_witness:
  "fst ` set (subdir_totals (demo_snapshots ! 0)) = {''apps/web/''}
   \<and> fst ` set (subdir_by_lang (demo_snapshots ! 0)) = fst ` set (subdir_totals (demo_snapshots ! 0))
   \<and> map fst (subdir_by_lang (demo_snapshots ! 0)) = map fst (subdir_totals (demo_snapshots ! 0))"
proof -
  have "demo_snapshots ! 0 \<in> set demo_snapshots"
    by (simp add: demo_snapshots_def)
  from subdir_keys_identical [OF demo_run this] show ?thesis
    by (simp add: demo_normalize)
qed

subsection \<open>The percentage\<close>

lemma bit_length_numeral:
  "bit_length 0 = 0"
  "bit_length (Suc 0) = 1"
  "bit_length (numeral Num.One) = 1"
  "bit_length (numeral (Num.Bit0 k)) = bit_length (numeral k) + 1"
  "bit_length (numeral (Num.Bit1 k)) = bit_length (numeral k) + 1"
proof -
  show "bit_length 0 = 0" by (simp add: bit_length.simps)
  show "bit_length (Suc 0) = 1" by (simp add: bit_length.simps)
  show "bit_length (numeral Num.One) = 1" by (simp add: bit_length.simps)
  show "bit_length (numeral (Num.Bit0 k)) = bit_length (numeral k) + 1"
    by (subst bit_length.simps) simp
  show "bit_length (numeral (Num.Bit1 k)) = bit_length (numeral k) + 1"
    by (subst bit_length.simps) simp
qed

lemmas float_eval = truediv_def float_of_int_def round_ratio_def zero_float_def floor_log2_def
  round_half_even_def bit_length_numeral Let_def

lemma bit_length_upper: "n < 2 ^ bit_length n"
proof (induction n rule: bit_length.induct)
  case (1 n)
  show ?case
  proof (cases "n = 0")
    case True
    then show ?thesis by (simp add: bit_length.simps)
  next
    case False
    from 1 [OF False] have "n div 2 < 2 ^ bit_length (n div 2)" .
    then have "n < 2 * 2 ^ bit_length (n div 2)" by linarith
    with False show ?thesis by (subst bit_length.simps) simp
  qed
qed

lemma bit_length_lower: "n \<noteq> 0 \<Longrightarrow> 2 ^ (bit_length n - 1) \<le> n"
proof (induction n rule: bit_length.induct)
  case (1 n)
  show ?case
  proof (cases "n div 2 = 0")
    case True
    with 1(2) have "n = 1" by (cases n) auto
    then show ?thesis by (simp add: bit_length.simps)
  next
    case False
    from 1(1) [OF 1(2) False] have ih: "2 ^ (bit_length (n div 2) - 1) \<le> n div 2" .
    from False have pos: "0 < bit_length (n div 2)"
      by (subst bit_length.simps) simp
    have "bit_length n = Suc (bit_length (n div 2))"
      using 1(2) by (subst bit_length.simps) simp
    then have "(2::nat) ^ (bit_length n - 1) = 2 * 2 ^ (bit_length (n div 2) - 1)"
      using pos by (cases "bit_length (n div 2)") simp_all
    also have "\<dots> \<le> 2 * (n div 2)" using ih by simp
    also have "\<dots> \<le> n" by simp
    finally show ?thesis .
  qed
qed

lemma bit_length_above:
  assumes "2 ^ k \<le> n"
  shows "k < bit_length n"
proof -
  from assms bit_length_upper [of n] have "(2::nat) ^ k < 2 ^ bit_length n" by linarith
  then show ?thesis by simp
qed

text \<open>An integer of magnitude 2 to the 1024 or more, divided by 1, is too large for a double.\<close>

lemma round_ratio_overflow:
  assumes "2 ^ 1024 \<le> a"
  shows "round_ratio sign a (Suc 0) = None"
proof -
  from assms have a0: "a \<noteq> 0" by (cases "a = 0") simp_all
  from bit_length_above [OF assms] have bl: "1024 < bit_length a" .
  have d: "int (bit_length a) - int (bit_length (Suc 0)) = int (bit_length a - 1)"
    using bl by (simp add: bit_length_numeral)
  have "floor_log2 a (Suc 0) = int (bit_length a - 1)"
    using bit_length_lower [OF a0] unfolding floor_log2_def d Let_def by simp
  with bl have "1024 \<le> floor_log2 a (Suc 0)" by simp
  then have e: "971 < max (floor_log2 a (Suc 0) - 52) (- 1074)" by simp
  then have e': "971 < max (floor_log2 a (Suc 0) - 52) (- 1074) + 1" by simp
  show ?thesis using a0 e e' by (simp add: round_ratio_def Let_def)
qed

lemma truediv_overflow:
  assumes "2 ^ 1024 \<le> a"
  shows "truediv a 1 = Inl OverflowError"
proof -
  from assms have "0 \<le> a" by (rule order_trans [rotated]) simp
  with assms have "(2::nat) ^ 1024 \<le> nat \<bar>a\<bar>" by (simp add: le_nat_iff)
  from round_ratio_overflow [OF this] show ?thesis by (simp add: truediv_def)
qed

lemma truediv_errors:
  "b \<noteq> 0 \<Longrightarrow> truediv a b \<noteq> Inl ZeroDivisionError"
  "truediv a b = Inl e \<Longrightarrow> (e = ZeroDivisionError \<and> b = 0) \<or> e = OverflowError"
  by (auto simp: truediv_def split: option.splits if_splits)

lemma truediv_zero: "b \<noteq> 0 \<Longrightarrow> truediv 0 b = Inr (zero_float (b < 0))"
  by (simp add: truediv_def round_ratio_def)

lemma fmul_zero: "fmul (zero_float s) (Finite False n f) = zero_float s"
  by (simp add: round_ratio_def zero_float_def)

lemma float_100: "float_of_int 100 = Inr (Finite False 7036874417766400 (- 46))"
  by (simp add: float_eval)

text \<open>\<^verbatim>\<open>11 / 20 * 100\<close> is \<^verbatim>\<open>55.00000000000001\<close>, one unit in the last place above 55.\<close>

lemma pct_rounding:
  "truediv 11 20 = Inr (Finite False 4953959590107546 (- 53))"
  "fmul (Finite False 4953959590107546 (- 53)) (Finite False 7036874417766400 (- 46))
     = Finite False 7740561859543041 (- 47)"
  by (simp_all add: float_eval)

lemma pct_overflow:
  "subdir_pct (pct_snapshot 1 [(''a/'', 10 ^ 400)]) ''a/'' = Inl OverflowError"
proof -
  have "truediv (10 ^ 400) 1 = Inl OverflowError"
    by (rule truediv_overflow) simp
  then show ?thesis
    by (simp add: subdir_pct_def pct_snapshot_def dict_get_def del: power_numeral)
qed

text \<open>
  C10 (amended). \<^verbatim>\<open>subdir_pct\<close> returns \<^verbatim>\<open>0.0\<close> when \<^verbatim>\<open>repo_total\<close> is 0, and otherwise
  what the floating-point expression \<^verbatim>\<open>subdir_totals.get(subdir, 0) / repo_total * 100\<close>
  gives: the correctly rounded quotient, times 100. It never raises \<open>ZeroDivisionError\<close>;
  the one exception it can raise is \<open>OverflowError\<close>, from a quotient too large for a
  float. For a key that \<^verbatim>\<open>subdir_totals\<close> does not have it returns zero: \<^verbatim>\<open>0.0\<close>, and
  \<^verbatim>\<open>-0.0\<close> when \<^verbatim>\<open>repo_total\<close> is negative.
\<close>

theorem subdir_pct_guarded:
  "(repo_total s = 0 \<longrightarrow> subdir_pct s sd = Inr (zero_float False))
   \<and> (repo_total s \<noteq> 0 \<longrightarrow>
        subdir_pct s sd =
          (case truediv (dict_get (subdir_totals s) sd 0) (repo_total s) of
             Inl e \<Rightarrow> Inl e
           | Inr q \<Rightarrow> Inr (fmul q (Finite False 7036874417766400 (- 46)))))
   \<and> subdir_pct s sd \<noteq> Inl ZeroDivisionError
   \<and> (\<forall>e. subdir_pct s sd = Inl e \<longrightarrow> e = OverflowError)
   \<and> (map_of (subdir_totals s) sd = None \<longrightarrow>
        subdir_pct s sd = Inr (zero_float (repo_total s < 0)))"
proof (intro conjI impI allI)
  assume "repo_total s = 0"
  then show "subdir_pct s sd = Inr (zero_float False)"
    by (simp add: subdir_pct_def)
next
  assume "repo_total s \<noteq> 0"
  then show "subdir_pct s sd =
          (case truediv (dict_get (subdir_totals s) sd 0) (repo_total s) of
             Inl e \<Rightarrow> Inl e
           | Inr q \<Rightarrow> Inr (fmul q (Finite False 7036874417766400 (- 46))))"
    by (simp add: subdir_pct_def float_100 split: sum.split)
next
  show "subdir_pct s sd \<noteq> Inl ZeroDivisionError"
  proof (cases "repo_total s = 0")
    case True
    then show ?thesis by (simp add: subdir_pct_def)
  next
    case False
    from truediv_errors(1) [OF False, of "dict_get (subdir_totals s) sd 0"] False
    show ?thesis by (auto simp: subdir_pct_def float_100 split: sum.splits)
  qed
next
  fix e assume r: "subdir_pct s sd = Inl e"
  then have nz: "repo_total s \<noteq> 0"
    by (cases "repo_total s = 0") (simp_all add: subdir_pct_def)
  with r have "truediv (dict_get (subdir_totals s) sd 0) (repo_total s) = Inl e"
    by (simp add: subdir_pct_def float_100 split: sum.splits)
  from truediv_errors(2) [OF this] nz show "e = OverflowError" by simp
next
  assume "map_of (subdir_totals s) sd = None"
  then have g: "dict_get (subdir_totals s) sd 0 = 0" by (simp add: dict_get_def)
  show "subdir_pct s sd = Inr (zero_float (repo_total s < 0))"
  proof (cases "repo_total s = 0")
    case True
    then show ?thesis by (simp add: subdir_pct_def)
  next
    case False
    then show ?thesis
      by (simp add: subdir_pct_def g truediv_zero float_100 fmul_zero)
  qed
qed

text \<open>
  A total of 0; 11 of 20 lines; a key that is missing, with a positive and with a negative
  total; and a quotient beyond the range of a float.
\<close>

theorem subdir_pct_guarded_witness:
  "subdir_pct (pct_snapshot 0 [(''a/'', 7)]) ''a/'' = Inr (zero_float False)
   \<and> subdir_pct (pct_snapshot 20 [(''a/'', 11)]) ''a/''
       = Inr (Finite False 7740561859543041 (- 47))
   \<and> map_of (subdir_totals (pct_snapshot 20 [(''a/'', 11)])) ''b/'' = None
   \<and> subdir_pct (pct_snapshot 20 [(''a/'', 11)]) ''b/'' = Inr (zero_float False)
   \<and> subdir_pct (pct_snapshot (- 5) []) ''b/'' = Inr (zero_float True)
   \<and> subdir_pct (pct_snapshot 1 [(''a/'', 10 ^ 400)]) ''a/'' = Inl OverflowError"
proof -
  have 1: "subdir_pct (pct_snapshot 0 [(''a/'', 7)]) ''a/'' = Inr (zero_float False)"
    using subdir_pct_guarded [of "pct_snapshot 0 [(''a/'', 7)]" "''a/''"]
    by (simp add: pct_snapshot_def)
  have 2: "subdir_pct (pct_snapshot 20 [(''a/'', 11)]) ''a/''
             = Inr (Finite False 7740561859543041 (- 47))"
    using subdir_pct_guarded [of "pct_snapshot 20 [(''a/'', 11)]" "''a/''"]
    by (simp add: pct_snapshot_def dict_get_def float_eval)
  have 3: "map_of (subdir_totals (pct_snapshot 20 [(''a/'', 11)])) ''b/'' = None"
    by (simp add: pct_snapshot_def)
  have "subdir_pct (pct_snapshot 20 [(''a/'', 11)]) ''b/''
          = Inr (zero_float (repo_total (pct_snapshot 20 [(''a/'', 11)]) < 0))"
    by (rule subdir_pct_guarded [of "pct_snapshot 20 [(''a/'', 11)]" "''b/''",
          THEN conjunct2, THEN conjunct2, THEN conjunct2, THEN conjunct2, THEN mp])
       (rule 3)
  then have 4: "subdir_pct (pct_snapshot 20 [(''a/'', 11)]) ''b/'' = Inr (zero_float False)"
    by (simp add: pct_snapshot_def)
  have "subdir_pct (pct_snapshot (- 5) []) ''b/''
          = Inr (zero_float (repo_total (pct_snapshot (- 5) []) < 0))"
    by (rule subdir_pct_guarded [of "pct_snapshot (- 5) []" "''b/''",
          THEN conjunct2, THEN conjunct2, THEN conjunct2, THEN conjunct2, THEN mp])
       (simp add: pct_snapshot_def)
  then have 5: "subdir_pct (pct_snapshot (- 5) []) ''b/'' = Inr (zero_float True)"
    by (simp add: pct_snapshot_def)
  from 1 2 3 4 5 pct_overflow show ?thesis by blast
qed

text \<open>
  The claim as stated fails: the method is not total. With a total of 1 and a
  subdirectory of 10 to the 400 lines the quotient is too large for a float and the
  division raises \<open>OverflowError\<close>.
\<close>

theorem subdir_pct_overflow_counterexample:
  "subdir_pct (pct_snapshot 1 [(''a/'', 10 ^ 400)]) ''a/'' = Inl OverflowError"
  by (rule pct_overflow)

end
